theory Spec2Isabelle
  imports Complex_Main "HOL-Library.AList"
begin

section \<open>Python values used by the copier\<close>

text \<open>
  The copier (\<^verbatim>\<open>mt5_copier_fixed.py\<close>) is a Python class \<^verbatim>\<open>MT5Copier\<close>. Python floats
  are idealised as \<^typ>\<open>real\<close> numbers, Python's unbounded integers are \<^typ>\<open>int\<close>,
  an attribute that may hold \<^verbatim>\<open>None\<close> is an \<^typ>\<open>'a option\<close>, and a dictionary is an
  association list in insertion order (\<^const>\<open>AList.update\<close> overwrites in place or appends,
  \<^const>\<open>AList.delete\<close> removes the key), read with \<^const>\<open>map_of\<close>.
  Exceptions are values of the type \<open>error\<close>; a \<^verbatim>\<open>try\<close> block is a body that returns
  \<open>error + 'a\<close> and a handler that maps \<open>Inl\<close> to what the \<^verbatim>\<open>except\<close> clause returns.
\<close>

datatype error = TypeError | ZeroDivisionError | AttributeError | ValueError | TerminalError

text \<open>\<^verbatim>\<open>x if x else 0.0\<close>: \<^verbatim>\<open>None\<close> and \<^verbatim>\<open>0.0\<close> are falsy.\<close>

definition or_zero :: "real option \<Rightarrow> real" where
  "or_zero x = (case x of None \<Rightarrow> 0 | Some v \<Rightarrow> if v \<noteq> 0 then v else 0)"

text \<open>\<^verbatim>\<open>a - b\<close> on attributes that may be \<^verbatim>\<open>None\<close>: Python raises TypeError.\<close>

definition py_sub :: "real option \<Rightarrow> real option \<Rightarrow> error + real" where
  "py_sub a b = (case a of None \<Rightarrow> Inl TypeError
                 | Some x \<Rightarrow> (case b of None \<Rightarrow> Inl TypeError | Some y \<Rightarrow> Inr (x - y)))"

text \<open>The literal \<^verbatim>\<open>0.00001\<close> of every comparison in the source.\<close>

definition tolerance :: real where
  "tolerance = 1 / 100000"

text \<open>Python 3's \<^verbatim>\<open>round(x)\<close>: to the nearest integer, a tie goes to the even one.\<close>

definition py_round :: "real \<Rightarrow> int" where
  "py_round x = (let f = \<lfloor>x\<rfloor>; d = x - of_int f
                 in if d < 1 / 2 then f else if 1 / 2 < d then f + 1
                    else if even f then f else f + 1)"

text \<open>\<^verbatim>\<open>str(n)\<close> of an integer, as the f-string \<^verbatim>\<open>f"Copy:{master_order.ticket}"\<close> prints it.\<close>

definition digit_char :: "nat \<Rightarrow> char" where
  "digit_char n = ''0123456789'' ! (n mod 10)"

fun str_nat :: "nat \<Rightarrow> string" where
  "str_nat n = (if n < 10 then [digit_char n] else str_nat (n div 10) @ [digit_char n])"

declare str_nat.simps [simp del]

definition str_int :: "int \<Rightarrow> string" where
  "str_int i = (if i < 0 then CHR ''-'' # str_nat (nat (- i)) else str_nat (nat i))"

text \<open>
  \<^verbatim>\<open>int(s)\<close> of a string: surrounding whitespace is stripped, one sign is allowed, then
  decimal digits, with single underscores allowed between digits; anything else raises
  ValueError (\<open>None\<close> here). Characters are bytes, so the non-ASCII digits and spaces that
  Python also accepts are not covered.
\<close>

definition digit_val :: "char \<Rightarrow> nat option" where
  "digit_val c = map_of (zip ''0123456789'' [0, 1, 2, 3, 4, 5, 6, 7, 8, 9]) c"

definition is_space :: "char \<Rightarrow> bool" where
  "is_space c = (c = CHR '' '' \<or> c \<in> set [CHR 0x09, CHR 0x0A, CHR 0x0B, CHR 0x0C, CHR 0x0D])"

definition strip :: "string \<Rightarrow> string" where
  "strip s = rev (dropWhile is_space (rev (dropWhile is_space s)))"

text \<open>The digits of a literal, most significant first; the flag tells whether the
  previous character was a digit (an underscore must stand between two digits).\<close>

fun digits_value :: "bool \<Rightarrow> nat \<Rightarrow> string \<Rightarrow> nat option" where
  "digits_value prev acc [] = (if prev then Some acc else None)"
| "digits_value prev acc (c # cs) =
     (case digit_val c of
        Some d \<Rightarrow> digits_value True (10 * acc + d) cs
      | None \<Rightarrow> if c = CHR ''_'' \<and> prev then
                  (case cs of [] \<Rightarrow> None
                   | c' # _ \<Rightarrow> if digit_val c' = None then None else digits_value False acc cs)
                else None)"

definition py_int :: "string \<Rightarrow> int option" where
  "py_int s = (case strip s of
       [] \<Rightarrow> None
     | c # r \<Rightarrow> if c = CHR ''-'' then map_option (\<lambda>n. - int n) (digits_value False 0 r)
               else if c = CHR ''+'' then map_option int (digits_value False 0 r)
               else map_option int (digits_value False 0 (c # r)))"

text \<open>\<^verbatim>\<open>s.startswith(p)\<close>.\<close>

definition startswith :: "string \<Rightarrow> string \<Rightarrow> bool" where
  "startswith s p = (take (length p) s = p)"

text \<open>\<^verbatim>\<open>s.split(':')[1]\<close> for a string that starts with \<^verbatim>\<open>Copy:\<close> (so the split has
  at least two parts and the index cannot be out of range): the text between the first
  colon and the next one.\<close>

definition split_colon_1 :: "string \<Rightarrow> string" where
  "split_colon_1 s = takeWhile (\<lambda>c. c \<noteq> CHR '':'') (drop 1 (dropWhile (\<lambda>c. c \<noteq> CHR '':'') s))"

section \<open>Data model\<close>

text \<open>The dataclass \<^verbatim>\<open>OrderInfo\<close>. Its numeric attributes are declared \<^verbatim>\<open>float\<close> but
  Python does not enforce that; the source itself guards \<^verbatim>\<open>sl\<close> and \<^verbatim>\<open>tp\<close> against
  \<^verbatim>\<open>None\<close>, so they are optional here.\<close>

record OrderInfo =
  ticket :: int
  symbol :: string
  order_type :: int
  volume :: "real option"
  price :: "real option"
  sl :: "real option"
  tp :: "real option"
  comment :: string
  magic :: int
  time_setup :: int
  state :: int
  master_ticket :: "int option"

text \<open>
  What the terminal returns from \<^verbatim>\<open>mt5.orders_get()\<close> and \<^verbatim>\<open>mt5.positions_get()\<close>.
  The three attributes that the source tests with \<^verbatim>\<open>hasattr\<close> are optional (\<open>None\<close>: the
  object has no such attribute). \<open>o_volume\<close> is \<^verbatim>\<open>volume_initial\<close> of a pending order and
  \<^verbatim>\<open>volume\<close> of a position; \<open>o_time\<close> is \<^verbatim>\<open>time_setup\<close> or \<^verbatim>\<open>time\<close>.
\<close>

record mt5_order =
  o_ticket :: int
  o_symbol :: string
  o_type :: "int option"
  o_volume :: real
  o_price_open :: "real option"
  o_sl :: real
  o_tp :: real
  o_comment :: "string option"
  o_magic :: int
  o_time :: int
  o_state :: int

text \<open>The entries of \<^verbatim>\<open>symbol_info._asdict()\<close> that the copier reads.\<close>

record symbol_info =
  trade_contract_size :: real
  trade_tick_value :: real
  volume_step :: real

text \<open>A follower's configuration dictionary. A key read with \<^verbatim>\<open>.get(key, default)\<close> is
  optional; \<^verbatim>\<open>lot_calculation\<close> is the string that \<^verbatim>\<open>LotCalculationType(...)\<close> parses.\<close>

record follower_config =
  login :: int
  lot_calculation :: string
  lot_value :: real
  max_lot :: "real option"
  min_lot :: "real option"
  symbol_mapping :: "(string \<times> string) list option"
  magic_number :: int
  enabled :: "bool option"

datatype LotCalculationType = FIXED | MULTIPLIER | PERCENT_BALANCE | RISK_BASED

text \<open>The keyword arguments of \<^verbatim>\<open>send_order\<close> and of \<^verbatim>\<open>modify_order\<close> (a keyword that is
  not passed, or passed as \<^verbatim>\<open>None\<close>, is \<open>None\<close>).\<close>

record order_request =
  r_symbol :: string
  r_order_type :: int
  r_volume :: "real option"
  r_price :: "real option"
  r_sl :: "real option"
  r_tp :: "real option"
  r_comment :: string
  r_magic :: int

record modify_params =
  m_price :: "real option"
  m_sl :: "real option"
  m_tp :: "real option"

text \<open>
  The calls that change a follower account, in the order they are made. Each is labelled
  with the follower login on whose pass it was made; a create also with the master ticket
  it copies (\<^verbatim>\<open>login\<close> and \<^verbatim>\<open>master_order.ticket\<close> at the call site).
\<close>

datatype action =
    Create int int order_request
  | Modify int int modify_params
  | Close int int
  | Cancel int int

section \<open>The terminal\<close>

text \<open>
  The methods of the class that only talk to the MetaTrader terminal
  (\<^verbatim>\<open>connect_account\<close>, \<^verbatim>\<open>get_symbol_info\<close>, \<^verbatim>\<open>send_order\<close>, \<^verbatim>\<open>modify_order\<close>,
  \<^verbatim>\<open>close_position\<close>, \<^verbatim>\<open>cancel_order\<close>) and the calls of the \<^verbatim>\<open>mt5\<close> module made by
  the reconciliation code are operations on an arbitrary terminal state \<open>'w\<close>: each takes
  the state and returns its result with the next state. The six methods catch every
  exception themselves and return \<^verbatim>\<open>False\<close> or \<^verbatim>\<open>None\<close>; the two snapshot calls can raise.
  \<^verbatim>\<open>None\<close> and the empty tuple from a snapshot call are both falsy and are the empty list.
  \<^verbatim>\<open>mt5.account_info()\<close> (its balance, or \<^verbatim>\<open>None\<close>) and \<^verbatim>\<open>mt5.positions_get(ticket=...)\<close>
  (whether it found a position) are taken to answer without raising.
\<close>

record 'w terminal =
  connect_account :: "int \<Rightarrow> 'w \<Rightarrow> bool \<times> 'w"
  orders_get :: "'w \<Rightarrow> (error + mt5_order list) \<times> 'w"
  positions_get :: "'w \<Rightarrow> (error + mt5_order list) \<times> 'w"
  positions_get_ticket :: "int \<Rightarrow> 'w \<Rightarrow> bool \<times> 'w"
  account_info :: "'w \<Rightarrow> real option \<times> 'w"
  get_symbol_info :: "string \<Rightarrow> int \<Rightarrow> 'w \<Rightarrow> symbol_info option \<times> 'w"
  send_order :: "order_request \<Rightarrow> 'w \<Rightarrow> int option \<times> 'w"
  modify_order :: "int \<Rightarrow> modify_params \<Rightarrow> 'w \<Rightarrow> bool \<times> 'w"
  close_position :: "int \<Rightarrow> 'w \<Rightarrow> bool \<times> 'w"
  cancel_order :: "int \<Rightarrow> 'w \<Rightarrow> bool \<times> 'w"

section \<open>The copier's state\<close>

record 'w copier =
  follower_orders :: "(int \<times> (int \<times> int) list) list"
  last_master_state :: "(int \<times> OrderInfo) list"
  order_sync_status :: "(int \<times> (int \<times> string) list) list"
  manually_closed :: "(int \<times> int set) list"
  cycle_count :: nat
  actions :: "action list"
  world :: 'w

text \<open>\<^verbatim>\<open>k in d\<close>, and \<^verbatim>\<open>d[k]\<close> where the source has just made sure that the key is there.\<close>

definition has_key :: "'k \<Rightarrow> ('k \<times> 'v) list \<Rightarrow> bool" where
  "has_key k d = (map_of d k \<noteq> None)"

definition inner_of :: "'k \<Rightarrow> ('k \<times> ('a \<times> 'b) list) list \<Rightarrow> ('a \<times> 'b) list" where
  "inner_of k d = (case map_of d k of None \<Rightarrow> [] | Some m \<Rightarrow> m)"

definition logins_of :: "int \<Rightarrow> (int \<times> int set) list \<Rightarrow> int set" where
  "logins_of k d = (case map_of d k of None \<Rightarrow> {} | Some s \<Rightarrow> s)"

text \<open>\<^verbatim>\<open>master_ticket in self.follower_orders and login in self.follower_orders[master_ticket]\<close>,
  giving the linked follower ticket.\<close>

definition link_of :: "int \<Rightarrow> int \<Rightarrow> (int \<times> (int \<times> int) list) list \<Rightarrow> int option" where
  "link_of mt lg fos = (case map_of fos mt of None \<Rightarrow> None | Some fs \<Rightarrow> map_of fs lg)"

text \<open>\<^verbatim>\<open>master_ticket in self.manually_closed and login in self.manually_closed[master_ticket]\<close>.\<close>

definition is_manually_closed :: "int \<Rightarrow> int \<Rightarrow> (int \<times> int set) list \<Rightarrow> bool" where
  "is_manually_closed mt lg mc = (case map_of mc mt of None \<Rightarrow> False | Some s \<Rightarrow> lg \<in> s)"

section \<open>Change detection\<close>

text \<open>\<^verbatim>\<open>_has_master_order_changed\<close>: the body of the \<^verbatim>\<open>try\<close>, then the method with its
  handler, which answers \<^verbatim>\<open>True\<close> on any exception.\<close>

definition has_master_order_changed_body :: "(int \<times> OrderInfo) list \<Rightarrow> OrderInfo \<Rightarrow> error + bool" where
  "has_master_order_changed_body lms master_order =
     (case map_of lms (ticket master_order) of
        None \<Rightarrow> Inr True
      | Some last_order \<Rightarrow>
          (case py_sub (price master_order) (price last_order) of
             Inl e \<Rightarrow> Inl e
           | Inr dp \<Rightarrow>
               (let c1 = (if \<bar>dp\<bar> > tolerance then [''price''] else []);
                    master_sl = or_zero (sl master_order);
                    last_sl = or_zero (sl last_order);
                    c2 = c1 @ (if \<bar>master_sl - last_sl\<bar> > tolerance then [''sl''] else []);
                    master_tp = or_zero (tp master_order);
                    last_tp = or_zero (tp last_order);
                    c3 = c2 @ (if \<bar>master_tp - last_tp\<bar> > tolerance then [''tp''] else [])
                in (case py_sub (volume master_order) (volume last_order) of
                      Inl e \<Rightarrow> Inl e
                    | Inr dv \<Rightarrow>
                        (let changes = c3 @ (if \<bar>dv\<bar> > tolerance then [''volume''] else [])
                         in Inr (changes \<noteq> []))))))"

definition has_master_order_changed :: "(int \<times> OrderInfo) list \<Rightarrow> OrderInfo \<Rightarrow> bool" where
  "has_master_order_changed lms master_order =
     (case has_master_order_changed_body lms master_order of Inl e \<Rightarrow> True | Inr b \<Rightarrow> b)"

record changes =
  has_changes :: bool
  summary :: "string list"

text \<open>\<^verbatim>\<open>{order.ticket: order for order in master_orders}\<close>.\<close>

definition state_of_orders :: "OrderInfo list \<Rightarrow> (int \<times> OrderInfo) list" where
  "state_of_orders master_orders = foldl (\<lambda>d order. AList.update (ticket order) order d) [] master_orders"

text \<open>\<^verbatim>\<open>_detect_master_changes\<close>. The ticket sets are the key lists of the two dictionaries.
  Nothing in the body can raise (the per-ticket comparison catches its own exceptions), so
  the method's own handler is never entered.\<close>

definition detect_master_changes ::
    "(int \<times> OrderInfo) list \<Rightarrow> (int \<times> OrderInfo) list \<Rightarrow> OrderInfo list \<Rightarrow> changes" where
  "detect_master_changes lms current_master_state master_orders =
     (let current_tickets = map fst current_master_state;
          last_tickets = map fst lms;
          new_orders = filter (\<lambda>t. t \<notin> set last_tickets) current_tickets;
          s1 = (if new_orders \<noteq> [] then [str_nat (length new_orders) @ '' new orders''] else []);
          removed_orders = filter (\<lambda>t. t \<notin> set current_tickets) last_tickets;
          s2 = s1 @ (if removed_orders \<noteq> []
                     then [str_nat (length removed_orders) @ '' removed orders''] else []);
          common_tickets = filter (\<lambda>t. t \<in> set last_tickets) current_tickets;
          modified_count = length (filter (\<lambda>t. case map_of current_master_state t of
                                                   None \<Rightarrow> False
                                                 | Some current_order \<Rightarrow>
                                                     has_master_order_changed lms current_order)
                                           common_tickets);
          s3 = s2 @ (if modified_count > 0
                     then [str_nat modified_count @ '' modified orders''] else [])
      in \<lparr>has_changes = (new_orders \<noteq> [] \<or> removed_orders \<noteq> [] \<or> modified_count > 0),
          summary = (if s3 = [] then [''no changes''] else s3)\<rparr>)"

section \<open>Symbol mapping and lot sizing\<close>

text \<open>\<^verbatim>\<open>map_symbol\<close>.\<close>

definition map_symbol :: "string \<Rightarrow> follower_config \<Rightarrow> string" where
  "map_symbol master_symbol fc =
     (let mapping = (case symbol_mapping fc of None \<Rightarrow> [] | Some m \<Rightarrow> m)
      in case map_of mapping master_symbol of None \<Rightarrow> master_symbol | Some mapped \<Rightarrow> mapped)"

text \<open>\<^verbatim>\<open>LotCalculationType(follower_config['lot_calculation'])\<close>: an unknown value raises
  ValueError.\<close>

definition LotCalculationType_of :: "string \<Rightarrow> error + LotCalculationType" where
  "LotCalculationType_of s =
     (if s = ''fixed'' then Inr FIXED
      else if s = ''multiplier'' then Inr MULTIPLIER
      else if s = ''percent_balance'' then Inr PERCENT_BALANCE
      else if s = ''risk_based'' then Inr RISK_BASED
      else Inl ValueError)"

text \<open>The second half of \<^verbatim>\<open>calculate_lot_size\<close>, from \<^verbatim>\<open># Apply min/max limits\<close> on: the
  clamp, then the rounding to the symbol's \<^verbatim>\<open>volume_step\<close> when the symbol is found.
  Dividing by a zero step raises ZeroDivisionError.\<close>

definition apply_limits_and_round ::
    "'w terminal \<Rightarrow> real \<Rightarrow> follower_config \<Rightarrow> string \<Rightarrow> 'w \<Rightarrow> (error + real option) \<times> 'w" where
  "apply_limits_and_round T calculated_lot fc symb w =
     (let lo = (case min_lot fc of None \<Rightarrow> 1 / 100 | Some v \<Rightarrow> v);
          hi = (case max_lot fc of None \<Rightarrow> 100 | Some v \<Rightarrow> v);
          clamped = max lo (min hi calculated_lot)
      in case get_symbol_info T symb (login fc) w of
           (None, w') \<Rightarrow> (Inr (Some clamped), w')
         | (Some info, w') \<Rightarrow>
             (let lot_step = volume_step info
              in if lot_step = 0 then (Inl ZeroDivisionError, w')
                 else (Inr (Some (of_int (py_round (clamped / lot_step)) * lot_step)), w')))"

text \<open>The body of the \<^verbatim>\<open>try\<close> in \<^verbatim>\<open>calculate_lot_size\<close>. Multiplying a \<^verbatim>\<open>None\<close> volume
  raises TypeError; the two early \<^verbatim>\<open>return master_volume\<close> of the percent-balance branch
  are results, not errors.\<close>

definition calculate_lot_size_body ::
    "'w terminal \<Rightarrow> real option \<Rightarrow> follower_config \<Rightarrow> string \<Rightarrow> 'w \<Rightarrow> (error + real option) \<times> 'w" where
  "calculate_lot_size_body T master_volume fc symb w =
     (case LotCalculationType_of (lot_calculation fc) of
        Inl e \<Rightarrow> (Inl e, w)
      | Inr FIXED \<Rightarrow> apply_limits_and_round T (lot_value fc) fc symb w
      | Inr MULTIPLIER \<Rightarrow>
          (case master_volume of
             None \<Rightarrow> (Inl TypeError, w)
           | Some mv \<Rightarrow> apply_limits_and_round T (mv * lot_value fc) fc symb w)
      | Inr PERCENT_BALANCE \<Rightarrow>
          (case account_info T w of
             (None, w1) \<Rightarrow> (Inr master_volume, w1)
           | (Some balance, w1) \<Rightarrow>
               (case get_symbol_info T symb (login fc) w1 of
                  (None, w2) \<Rightarrow> (Inr master_volume, w2)
                | (Some info, w2) \<Rightarrow>
                    (let contract_size = trade_contract_size info;
                         tick_value = trade_tick_value info;
                         risk_amount = balance * (lot_value fc / 100)
                     in if contract_size * tick_value = 0 then (Inl ZeroDivisionError, w2)
                        else apply_limits_and_round T
                               (risk_amount / (contract_size * tick_value)) fc symb w2)))
      | Inr RISK_BASED \<Rightarrow>
          (case master_volume of
             None \<Rightarrow> (Inl TypeError, w)
           | Some mv \<Rightarrow> apply_limits_and_round T (mv * lot_value fc) fc symb w))"

text \<open>\<^verbatim>\<open>calculate_lot_size\<close>: any exception returns the master volume.\<close>

definition calculate_lot_size ::
    "'w terminal \<Rightarrow> real option \<Rightarrow> follower_config \<Rightarrow> string \<Rightarrow> 'w \<Rightarrow> real option \<times> 'w" where
  "calculate_lot_size T master_volume fc symb w =
     (case calculate_lot_size_body T master_volume fc symb w of
        (Inl e, w') \<Rightarrow> (master_volume, w')
      | (Inr v, w') \<Rightarrow> (v, w'))"

section \<open>The reconciliation engine\<close>

text \<open>\<^verbatim>\<open>d[k1][k2] = v\<close> after \<^verbatim>\<open>if k1 not in d: d[k1] = {}\<close>.\<close>

definition nested_set :: "'k \<Rightarrow> 'a \<Rightarrow> 'b \<Rightarrow> ('k \<times> ('a \<times> 'b) list) list \<Rightarrow> ('k \<times> ('a \<times> 'b) list) list" where
  "nested_set k1 k2 v d =
     (let d1 = (if has_key k1 d then d else AList.update k1 [] d)
      in AList.update k1 (AList.update k2 v (inner_of k1 d1)) d1)"

text \<open>\<^verbatim>\<open>_copy_new_order\<close>. The create request is sent only when the follower knows the
  symbol; a ticket is recorded only when \<^verbatim>\<open>send_order\<close> returned a truthy one.\<close>

definition copy_new_order :: "'w terminal \<Rightarrow> OrderInfo \<Rightarrow> follower_config \<Rightarrow> 'w copier \<Rightarrow> 'w copier" where
  "copy_new_order T master_order fc st =
     (let symb = map_symbol (symbol master_order) fc
      in case get_symbol_info T symb (login fc) (world st) of
           (None, w1) \<Rightarrow> st\<lparr>world := w1\<rparr>
         | (Some info, w1) \<Rightarrow>
             (case calculate_lot_size T (volume master_order) fc symb w1 of
                (vol, w2) \<Rightarrow>
                  (let req = \<lparr>r_symbol = symb, r_order_type = order_type master_order,
                              r_volume = vol, r_price = price master_order,
                              r_sl = sl master_order, r_tp = tp master_order,
                              r_comment = ''Copy:'' @ str_int (ticket master_order),
                              r_magic = magic_number fc\<rparr>
                   in case send_order T req w2 of
                        (res, w3) \<Rightarrow>
                          (let st1 = st\<lparr>world := w3,
                                        actions := actions st @
                                          [Create (login fc) (ticket master_order) req]\<rparr>
                           in case res of
                                None \<Rightarrow> st1
                              | Some follower_ticket \<Rightarrow>
                                  if follower_ticket \<noteq> 0
                                  then st1\<lparr>follower_orders :=
                                         nested_set (ticket master_order) (login fc)
                                           follower_ticket (follower_orders st1)\<rparr>
                                  else st1))))"

text \<open>\<^verbatim>\<open>_check_order_modifications\<close>. \<^verbatim>\<open>modifications_needed\<close> holds one log text per
  changed field; only its emptiness is used, so the texts are the field names here.\<close>

definition check_order_modifications ::
    "'w terminal \<Rightarrow> OrderInfo \<Rightarrow> mt5_order \<Rightarrow> follower_config \<Rightarrow> 'w copier \<Rightarrow> 'w copier" where
  "check_order_modifications T master_order follower_order fc st =
     (let master_sl = or_zero (sl master_order);
          master_tp = or_zero (tp master_order);
          follower_sl = or_zero (Some (o_sl follower_order));
          follower_tp = or_zero (Some (o_tp follower_order));
          sl_changed = (\<bar>master_sl - follower_sl\<bar> > tolerance);
          tp_changed = (\<bar>master_tp - follower_tp\<bar> > tolerance);
          m1 = (if sl_changed then [''SL''] else []);
          m2 = m1 @ (if tp_changed then [''TP''] else []);
          price_changed = (case o_price_open follower_order of
                             None \<Rightarrow> False
                           | Some po \<Rightarrow>
                               \<bar>or_zero (price master_order) - or_zero (Some po)\<bar> > tolerance);
          modifications_needed = m2 @ (if price_changed then [''Price''] else [])
      in if modifications_needed \<noteq> [] then
           (let modify_params = \<lparr>m_price = (if price_changed then price master_order else None),
                                 m_sl = (if sl_changed then Some master_sl else None),
                                 m_tp = (if tp_changed then Some master_tp else None)\<rparr>
            in case modify_order T (o_ticket follower_order) modify_params (world st) of
                 (success, w') \<Rightarrow>
                   st\<lparr>world := w',
                      actions := actions st @
                        [Modify (login fc) (o_ticket follower_order) modify_params]\<rparr>)
         else st)"

text \<open>The manual-close branch of \<^verbatim>\<open>_process_master_order\<close>: the follower is added to
  \<^verbatim>\<open>manually_closed\<close> and the link and its status are dropped.\<close>

definition mark_manually_closed :: "int \<Rightarrow> int \<Rightarrow> 'w copier \<Rightarrow> 'w copier" where
  "mark_manually_closed mt lg st =
     (let mc = manually_closed st;
          mc1 = (if has_key mt mc then mc else AList.update mt {} mc);
          mc2 = AList.update mt (insert lg (logins_of mt mc1)) mc1;
          fos1 = AList.update mt (AList.delete lg (inner_of mt (follower_orders st)))
                   (follower_orders st);
          oss = order_sync_status st;
          oss1 = (if has_key mt oss \<and> has_key lg (inner_of mt oss)
                  then AList.update mt (AList.delete lg (inner_of mt oss)) oss else oss)
      in if inner_of mt fos1 = []
         then st\<lparr>manually_closed := mc2, follower_orders := AList.delete mt fos1,
                 order_sync_status := (if has_key mt oss1 then AList.delete mt oss1 else oss1)\<rparr>
         else st\<lparr>manually_closed := mc2, follower_orders := fos1, order_sync_status := oss1\<rparr>)"

text \<open>\<^verbatim>\<open>_process_master_order\<close>. The second argument of the source's
  \<^verbatim>\<open>follower_orders\<close> parameter (the follower's live orders by ticket) is \<open>live\<close>.\<close>

definition process_master_order ::
    "'w terminal \<Rightarrow> OrderInfo \<Rightarrow> follower_config \<Rightarrow> (int \<times> mt5_order) list \<Rightarrow> 'w copier \<Rightarrow> 'w copier" where
  "process_master_order T master_order fc live st =
     (case link_of (ticket master_order) (login fc) (follower_orders st) of
        Some follower_ticket \<Rightarrow>
          (case map_of live follower_ticket of
             Some follower_order \<Rightarrow>
               (let st1 = (if has_master_order_changed (last_master_state st) master_order
                           then check_order_modifications T master_order follower_order fc st
                           else st)
                in st1\<lparr>order_sync_status :=
                         nested_set (ticket master_order) (login fc) ''synced''
                           (order_sync_status st1)\<rparr>)
           | None \<Rightarrow> mark_manually_closed (ticket master_order) (login fc) st)
      | None \<Rightarrow>
          if is_manually_closed (ticket master_order) (login fc) (manually_closed st)
          then st
          else copy_new_order T master_order fc st)"

text \<open>Method 1 of \<^verbatim>\<open>_cleanup_orphaned_orders\<close> decodes the master ticket from a comment
  \<^verbatim>\<open>Copy:<ticket>\<close>; a comment that is missing, empty, not of that form or not a number
  gives no ticket.\<close>

definition decode_master_ticket :: "mt5_order \<Rightarrow> int option" where
  "decode_master_ticket order =
     (case o_comment order of
        None \<Rightarrow> None
      | Some c \<Rightarrow> if c \<noteq> [] \<and> startswith c ''Copy:'' then py_int (split_colon_1 c) else None)"

text \<open>Method 1: the live orders with our magic number whose comment names a master ticket
  that is not in the snapshot. Each entry is \<^verbatim>\<open>(ticket, order, master_ticket)\<close>.\<close>

definition orphans_by_comment ::
    "int \<Rightarrow> int list \<Rightarrow> (int \<times> mt5_order) list \<Rightarrow> (int \<times> mt5_order \<times> int) list" where
  "orphans_by_comment mg master_tickets live =
     concat (map (\<lambda>(t, order).
                    if o_magic order \<noteq> mg then []
                    else (case decode_master_ticket order of
                            None \<Rightarrow> []
                          | Some mt \<Rightarrow> if mt \<notin> set master_tickets then [(t, order, mt)] else []))
                 live)"

text \<open>Method 2: the links of this follower whose master ticket is not in the snapshot and
  whose follower ticket is live.\<close>

definition orphans_by_link ::
    "int \<Rightarrow> int list \<Rightarrow> (int \<times> mt5_order) list \<Rightarrow> (int \<times> (int \<times> int) list) list
       \<Rightarrow> (int \<times> mt5_order \<times> int) list" where
  "orphans_by_link lg master_tickets live fos =
     concat (map (\<lambda>(mt, followers).
                    if mt \<notin> set master_tickets then
                      (case map_of followers lg of
                         None \<Rightarrow> []
                       | Some follower_ticket \<Rightarrow>
                           (case map_of live follower_ticket of
                              None \<Rightarrow> []
                            | Some order \<Rightarrow> [(follower_ticket, order, mt)]))
                    else [])
                 fos)"

text \<open>The call of one round of the closing loop: a position is closed, a pending order is
  cancelled. \<^verbatim>\<open>mt5.ORDER_TYPE_BUY\<close> is 0 and \<^verbatim>\<open>mt5.ORDER_TYPE_SELL\<close> is 1; an object
  without a type is looked up among the positions. The result tells which call was made
  and whether it succeeded.\<close>

definition close_or_cancel :: "'w terminal \<Rightarrow> int \<Rightarrow> mt5_order \<Rightarrow> 'w \<Rightarrow> (bool \<times> bool) \<times> 'w" where
  "close_or_cancel T t order w =
     (case (case o_type order of
              Some ty \<Rightarrow> (ty = 0 \<or> ty = 1, w)
            | None \<Rightarrow> positions_get_ticket T t w) of
        (is_position, w1) \<Rightarrow>
          (case (if is_position then close_position T t w1 else cancel_order T t w1) of
             (success, w2) \<Rightarrow> ((is_position, success), w2)))"

text \<open>\<^verbatim>\<open># Remove from tracking if successful\<close>: this follower's link of the master ticket
  is deleted, and the master ticket's entry with it once no follower is left.\<close>

definition remove_link ::
    "int \<Rightarrow> int \<Rightarrow> (int \<times> (int \<times> int) list) list \<Rightarrow> (int \<times> (int \<times> int) list) list" where
  "remove_link mt lg fos =
     (let inner = inner_of mt fos;
          inner1 = (if has_key lg inner then AList.delete lg inner else inner);
          fos1 = AList.update mt inner1 fos
      in if inner1 = [] then AList.delete mt fos1 else fos1)"

text \<open>One round of the closing loop.\<close>

definition close_orphan ::
    "'w terminal \<Rightarrow> int \<Rightarrow> 'w copier \<Rightarrow> int \<times> mt5_order \<times> int \<Rightarrow> 'w copier" where
  "close_orphan T lg st entry =
     (case entry of
        (t, order, mt) \<Rightarrow>
          (case close_or_cancel T t order (world st) of
             ((is_position, success), w2) \<Rightarrow>
               (let st1 = st\<lparr>world := w2,
                             actions := actions st @
                               [if is_position then Close lg t else Cancel lg t]\<rparr>
                in if success \<and> has_key mt (follower_orders st1)
                   then st1\<lparr>follower_orders := remove_link mt lg (follower_orders st1)\<rparr>
                   else st1)))"

text \<open>\<^verbatim>\<open>_cleanup_orphaned_orders\<close>: both methods append to the one list
  \<^verbatim>\<open>orders_to_close\<close>, which is then walked.\<close>

definition cleanup_orphaned_orders ::
    "'w terminal \<Rightarrow> OrderInfo list \<Rightarrow> (int \<times> mt5_order) list \<Rightarrow> follower_config
       \<Rightarrow> 'w copier \<Rightarrow> 'w copier" where
  "cleanup_orphaned_orders T master_orders live fc st =
     (let master_tickets = map ticket master_orders;
          orders_to_close = orphans_by_comment (magic_number fc) master_tickets live
                            @ orphans_by_link (login fc) master_tickets live (follower_orders st)
      in foldl (close_orphan T (login fc)) st orders_to_close)"

text \<open>The two loops of \<^verbatim>\<open>sync_orders_to_follower\<close> that fill the local dictionary of the
  follower's live orders: only orders with the configured magic number are stored.\<close>

definition track_own :: "int \<Rightarrow> (int \<times> mt5_order) list \<Rightarrow> mt5_order list \<Rightarrow> (int \<times> mt5_order) list" where
  "track_own mg d orders =
     foldl (\<lambda>d order. if o_magic order = mg then AList.update (o_ticket order) order d else d)
           d orders"

text \<open>\<^verbatim>\<open>sync_orders_to_follower\<close>. An exception of a snapshot call ends the pass.\<close>

definition sync_orders_to_follower ::
    "'w terminal \<Rightarrow> follower_config \<Rightarrow> OrderInfo list \<Rightarrow> 'w copier \<Rightarrow> 'w copier" where
  "sync_orders_to_follower T fc master_orders st =
     (case connect_account T (login fc) (world st) of
        (False, w1) \<Rightarrow> st\<lparr>world := w1\<rparr>
      | (True, w1) \<Rightarrow>
          (case orders_get T w1 of
             (Inl e, w2) \<Rightarrow> st\<lparr>world := w2\<rparr>
           | (Inr pending, w2) \<Rightarrow>
               (case positions_get T w2 of
                  (Inl e, w3) \<Rightarrow> st\<lparr>world := w3\<rparr>
                | (Inr positions, w3) \<Rightarrow>
                    (let live = track_own (magic_number fc)
                                  (track_own (magic_number fc) [] pending) positions;
                         st1 = foldl (\<lambda>s master_order. process_master_order T master_order fc live s)
                                     (st\<lparr>world := w3\<rparr>) master_orders
                     in cleanup_orphaned_orders T master_orders live fc st1))))"

section \<open>The cycle\<close>

text \<open>\<^verbatim>\<open>get_master_orders\<close>. Reading an attribute that the terminal's object does not have
  raises AttributeError; every exception, like a failed connection, gives the empty list.\<close>

definition order_info_of_pending :: "mt5_order \<Rightarrow> error + OrderInfo" where
  "order_info_of_pending order =
     (case o_type order of None \<Rightarrow> Inl AttributeError | Some ty \<Rightarrow>
      (case o_price_open order of None \<Rightarrow> Inl AttributeError | Some po \<Rightarrow>
       (case o_comment order of None \<Rightarrow> Inl AttributeError | Some c \<Rightarrow>
          Inr \<lparr>ticket = o_ticket order, symbol = o_symbol order, order_type = ty,
               volume = Some (o_volume order), price = Some po,
               sl = Some (o_sl order), tp = Some (o_tp order), comment = c,
               magic = o_magic order, time_setup = o_time order, state = o_state order,
               master_ticket = None\<rparr>)))"

definition order_info_of_position :: "mt5_order \<Rightarrow> error + OrderInfo" where
  "order_info_of_position pos =
     (case order_info_of_pending pos of
        Inl e \<Rightarrow> Inl e
      | Inr info \<Rightarrow> Inr (info\<lparr>state := 4\<rparr>))"

fun collect_orders ::
    "(mt5_order \<Rightarrow> error + OrderInfo) \<Rightarrow> OrderInfo list \<Rightarrow> mt5_order list \<Rightarrow> error + OrderInfo list" where
  "collect_orders f orders [] = Inr orders"
| "collect_orders f orders (x # xs) =
     (case f x of Inl e \<Rightarrow> Inl e | Inr info \<Rightarrow> collect_orders f (orders @ [info]) xs)"

definition get_master_orders :: "'w terminal \<Rightarrow> int \<Rightarrow> 'w \<Rightarrow> OrderInfo list \<times> 'w" where
  "get_master_orders T master w =
     (case connect_account T master w of
        (False, w1) \<Rightarrow> ([], w1)
      | (True, w1) \<Rightarrow>
          (case orders_get T w1 of
             (Inl e, w2) \<Rightarrow> ([], w2)
           | (Inr pending_orders, w2) \<Rightarrow>
               (case collect_orders order_info_of_pending [] pending_orders of
                  Inl e \<Rightarrow> ([], w2)
                | Inr orders \<Rightarrow>
                    (case positions_get T w2 of
                       (Inl e, w3) \<Rightarrow> ([], w3)
                     | (Inr positions, w3) \<Rightarrow>
                         (case collect_orders order_info_of_position orders positions of
                            Inl e \<Rightarrow> ([], w3)
                          | Inr orders' \<Rightarrow> (orders', w3))))))"

text \<open>The configuration file: the master account's login and the follower dictionaries.\<close>

record config =
  master_account :: int
  follower_accounts :: "follower_config list"

text \<open>\<^verbatim>\<open>follower_config.get('enabled', True)\<close>.\<close>

definition is_enabled :: "follower_config \<Rightarrow> bool" where
  "is_enabled fc = (case enabled fc of None \<Rightarrow> True | Some b \<Rightarrow> b)"

text \<open>The loop over the followers in \<^verbatim>\<open>run_copy_cycle\<close>; both branches of the source (an
  empty and a non-empty snapshot) run it, the first with the empty list.\<close>

definition sync_all ::
    "'w terminal \<Rightarrow> follower_config list \<Rightarrow> OrderInfo list \<Rightarrow> 'w copier \<Rightarrow> 'w copier" where
  "sync_all T fcs master_orders st =
     foldl (\<lambda>s fc. if is_enabled fc then sync_orders_to_follower T fc master_orders s else s)
           st fcs"

text \<open>\<^verbatim>\<open>run_copy_cycle\<close>. Without a detected change the cycle only stores the snapshot.\<close>

definition run_copy_cycle :: "'w terminal \<Rightarrow> config \<Rightarrow> 'w copier \<Rightarrow> 'w copier" where
  "run_copy_cycle T cfg st =
     (case get_master_orders T (master_account cfg) (world st) of
        (master_orders, w1) \<Rightarrow>
          (let st1 = st\<lparr>cycle_count := cycle_count st + 1, world := w1\<rparr>;
               current_master_state = state_of_orders master_orders;
               changes_detected = detect_master_changes (last_master_state st1)
                                    current_master_state master_orders
           in if \<not> has_changes changes_detected
              then st1\<lparr>last_master_state := current_master_state\<rparr>
              else (let st2 = (if master_orders = []
                               then sync_all T (follower_accounts cfg) [] st1
                               else sync_all T (follower_accounts cfg) master_orders st1)
                    in st2\<lparr>last_master_state := current_master_state\<rparr>)))"

text \<open>The main loop of \<^verbatim>\<open>start\<close>, cut after \<open>n\<close> cycles.\<close>

fun run_cycles :: "'w terminal \<Rightarrow> config \<Rightarrow> nat \<Rightarrow> 'w copier \<Rightarrow> 'w copier" where
  "run_cycles T cfg 0 st = st"
| "run_cycles T cfg (Suc n) st = run_cycles T cfg n (run_copy_cycle T cfg st)"


section \<open>Example data\<close>

text \<open>A small terminal for the concrete runs below. Its state is the login of the connected
  account; the master is account 1. Only positions are open: \<open>master_side\<close> on the master,
  \<open>follower_side\<close> on every follower. Every trade request succeeds; a create returns
  ticket 500.\<close>

definition demo_position :: "int \<Rightarrow> int \<Rightarrow> string \<Rightarrow> int \<Rightarrow> mt5_order" where
  "demo_position t ty c mg =
     \<lparr>o_ticket = t, o_symbol = ''EURUSD'', o_type = Some ty, o_volume = 1,
      o_price_open = Some (11 / 10), o_sl = 0, o_tp = 0, o_comment = Some c, o_magic = mg,
      o_time = 0, o_state = 0\<rparr>"

definition demo_symbol_info :: symbol_info where
  "demo_symbol_info = \<lparr>trade_contract_size = 100000, trade_tick_value = 1, volume_step = 1 / 100\<rparr>"

definition fixed_terminal ::
    "mt5_order list \<Rightarrow> mt5_order list \<Rightarrow> symbol_info option \<Rightarrow> int terminal" where
  "fixed_terminal master_side follower_side info =
     \<lparr>connect_account = (\<lambda>l w. (True, l)),
      orders_get = (\<lambda>w. (Inr [], w)),
      positions_get = (\<lambda>w. (Inr (if w = 1 then master_side else follower_side), w)),
      positions_get_ticket = (\<lambda>t w. (False, w)),
      account_info = (\<lambda>w. (Some 10000, w)),
      get_symbol_info = (\<lambda>s l w. (info, w)),
      send_order = (\<lambda>r w. (Some 500, w)),
      modify_order = (\<lambda>t p w. (True, w)),
      close_position = (\<lambda>t w. (True, w)),
      cancel_order = (\<lambda>t w. (True, w))\<rparr>"

definition demo_follower :: follower_config where
  "demo_follower = \<lparr>login = 2, lot_calculation = ''multiplier'', lot_value = 1 / 2,
      max_lot = Some 5, min_lot = Some (1 / 100), symbol_mapping = None, magic_number = 77,
      enabled = None\<rparr>"

definition demo_config :: config where
  "demo_config = \<lparr>master_account = 1, follower_accounts = [demo_follower]\<rparr>"

definition initial_copier :: "int copier" where
  "initial_copier = \<lparr>follower_orders = [], last_master_state = [], order_sync_status = [],
      manually_closed = [], cycle_count = 0, actions = [], world = 0\<rparr>"

definition demo_order :: OrderInfo where
  "demo_order = \<lparr>ticket = 100, symbol = ''EURUSD'', order_type = 0, volume = Some 1,
      price = Some (11 / 10), sl = Some 0, tp = Some 0, comment = [], magic = 0,
      time_setup = 0, state = 4, master_ticket = None\<rparr>"

text \<open>The master holds one position, ticket 100; the follower holds nothing yet.\<close>

definition demo_terminal :: "int terminal" where
  "demo_terminal = fixed_terminal [demo_position 100 0 [] 0] [] (Some demo_symbol_info)"

text \<open>The copier after ticket 100 was copied to follower 2 as ticket 500.\<close>

definition linked_copier :: "int copier" where
  "linked_copier = \<lparr>follower_orders = [(100, [(2, 500)])], last_master_state = [(100, demo_order)],
      order_sync_status = [], manually_closed = [], cycle_count = 1, actions = [], world = 2\<rparr>"

text \<open>Scenario 5 of the specification: a follower sized by percent of balance, on a
  terminal that does not know the symbol.\<close>

definition percent_follower :: follower_config where
  "percent_follower = demo_follower\<lparr>lot_calculation := ''percent_balance'', lot_value := 1\<rparr>"

definition blind_terminal :: "int terminal" where
  "blind_terminal = fixed_terminal [demo_position 100 0 [] 0] [] None"

text \<open>Scenario 4 of the specification: the master has closed ticket 100. The follower still
  holds its copy, here a pending buy-limit order (type 2) with ticket 500, comment
  \<^verbatim>\<open>Copy:100\<close> and the follower's magic number.\<close>

definition orphan_terminal :: "int terminal" where
  "orphan_terminal =
     (fixed_terminal [] [] (Some demo_symbol_info))
       \<lparr>orders_get := (\<lambda>w. (Inr (if w = 1 then [] else [demo_position 500 2 ''Copy:100'' 77]), w))\<rparr>"

text \<open>Two followers, 2 and 3, both hold a copy of master ticket 100 (tickets 500 and 600);
  a third account, 4, closed its copy by hand earlier. The master has closed ticket 100.\<close>

definition second_follower :: follower_config where
  "second_follower = demo_follower\<lparr>login := 3, magic_number := 78\<rparr>"

definition two_follower_config :: config where
  "two_follower_config = \<lparr>master_account = 1, follower_accounts = [demo_follower, second_follower]\<rparr>"

definition two_follower_terminal :: "int terminal" where
  "two_follower_terminal =
     (fixed_terminal [] [] (Some demo_symbol_info))
       \<lparr>orders_get := (\<lambda>w. (Inr (if w = 2 then [demo_position 500 2 ''Copy:100'' 77]
                                    else if w = 3 then [demo_position 600 2 ''Copy:100'' 78]
                                    else []), w))\<rparr>"

definition two_follower_copier :: "int copier" where
  "two_follower_copier =
     \<lparr>follower_orders = [(100, [(2, 500), (3, 600)])], last_master_state = [(100, demo_order)],
      order_sync_status = [(100, [(2, ''synced''), (3, ''synced'')])],
      manually_closed = [(100, {4})], cycle_count = 1, actions = [], world = 3\<rparr>"

text \<open>Scenario 3 of the specification: follower 2 closed its copy of ticket 100 by hand and
  the engine has recorded it; the master still holds ticket 100.\<close>

definition closed_copier :: "int copier" where
  "closed_copier = \<lparr>follower_orders = [], last_master_state = [], order_sync_status = [],
      manually_closed = [(100, {2})], cycle_count = 7, actions = [], world = 0\<rparr>"

text \<open>The follower holds two pending orders with the comment \<^verbatim>\<open>Copy:100\<close>: ticket 500 with
  the follower's magic number 77, and ticket 700 placed by someone else (magic 0). The
  master has closed ticket 100.\<close>

definition mixed_terminal :: "int terminal" where
  "mixed_terminal =
     (fixed_terminal [] [] (Some demo_symbol_info))
       \<lparr>orders_get := (\<lambda>w. (Inr (if w = 1 then []
                                    else [demo_position 500 2 ''Copy:100'' 77,
                                          demo_position 700 2 ''Copy:100'' 0]), w))\<rparr>"

text \<open>The master account cannot be reached; the follower still holds its copy 500 of
  ticket 100.\<close>

definition offline_terminal :: "int terminal" where
  "offline_terminal = orphan_terminal\<lparr>connect_account := (\<lambda>l w. (l \<noteq> 1, l))\<rparr>"

text \<open>A terminal that forgets an order once it is cancelled. Its state is the connected
  login with the tickets cancelled so far; follower 2 holds the pending order 500 until it
  is cancelled, and a second cancel of the same ticket fails.\<close>

definition once_terminal :: "(int \<times> int list) terminal" where
  "once_terminal =
     \<lparr>connect_account = (\<lambda>l w. (True, (l, snd w))),
      orders_get = (\<lambda>w. (Inr (if fst w = 2 \<and> 500 \<notin> set (snd w)
                                then [demo_position 500 2 ''Copy:100'' 77] else []), w)),
      positions_get = (\<lambda>w. (Inr [], w)),
      positions_get_ticket = (\<lambda>t w. (False, w)),
      account_info = (\<lambda>w. (Some 10000, w)),
      get_symbol_info = (\<lambda>s l w. (Some demo_symbol_info, w)),
      send_order = (\<lambda>r w. (None, w)),
      modify_order = (\<lambda>t p w. (False, w)),
      close_position = (\<lambda>t w. (False, w)),
      cancel_order = (\<lambda>t w. (t \<notin> set (snd w), (fst w, t # snd w)))\<rparr>"

definition once_copier :: "(int \<times> int list) copier" where
  "once_copier =
     \<lparr>follower_orders = [(100, [(2, 500), (3, 600)])], last_master_state = [(100, demo_order)],
      order_sync_status = [(100, [(2, ''synced''), (3, ''synced'')])],
      manually_closed = [(100, {4})], cycle_count = 1, actions = [], world = (2, [])\<rparr>"


section \<open>Predicates of the specification\<close>

text \<open>"The delta does not exceed 1e-5", for two attribute values that are numbers.\<close>

definition delta_within :: "real option \<Rightarrow> real option \<Rightarrow> bool" where
  "delta_within a b =
     (case a of None \<Rightarrow> False
      | Some x \<Rightarrow> (case b of None \<Rightarrow> False | Some y \<Rightarrow> \<bar>x - y\<bar> \<le> tolerance))"

text \<open>The price, stop-loss, take-profit and volume of a ticket moved by at most the
  tolerance between the previous snapshot's order and the current one (a missing stop-loss
  or take-profit counts as 0, as everywhere in the source).\<close>

definition order_within_tolerance :: "OrderInfo \<Rightarrow> OrderInfo \<Rightarrow> bool" where
  "order_within_tolerance last_order current_order =
     (delta_within (price current_order) (price last_order)
      \<and> \<bar>or_zero (sl current_order) - or_zero (sl last_order)\<bar> \<le> tolerance
      \<and> \<bar>or_zero (tp current_order) - or_zero (tp last_order)\<bar> \<le> tolerance
      \<and> delta_within (volume current_order) (volume last_order))"

text \<open>An unchanged master snapshot: the same ticket set, and every common ticket within
  the tolerance.\<close>

definition snapshot_unchanged :: "(int \<times> OrderInfo) list \<Rightarrow> (int \<times> OrderInfo) list \<Rightarrow> bool" where
  "snapshot_unchanged previous current =
     (set (map fst previous) = set (map fst current)
      \<and> list_all (\<lambda>(t, current_order).
                     case map_of previous t of
                       None \<Rightarrow> True
                     | Some last_order \<Rightarrow> order_within_tolerance last_order current_order)
                  current)"

text \<open>The deltas of the fields that step 3 (modify) compares between a master order and the
  follower's live order. The open price is compared only when the follower's object has
  one; otherwise its delta is 0.\<close>

definition sl_delta :: "OrderInfo \<Rightarrow> mt5_order \<Rightarrow> real" where
  "sl_delta master_order follower_order = \<bar>or_zero (sl master_order) - o_sl follower_order\<bar>"

definition tp_delta :: "OrderInfo \<Rightarrow> mt5_order \<Rightarrow> real" where
  "tp_delta master_order follower_order = \<bar>or_zero (tp master_order) - o_tp follower_order\<bar>"

definition price_delta :: "OrderInfo \<Rightarrow> mt5_order \<Rightarrow> real" where
  "price_delta master_order follower_order =
     (case o_price_open follower_order of
        None \<Rightarrow> 0
      | Some po \<Rightarrow> \<bar>or_zero (price master_order) - po\<bar>)"

text \<open>The sizing table of the specification: the lot a policy asks for before the bounds
  and the step are applied.\<close>

definition policy_lot :: "LotCalculationType \<Rightarrow> real \<Rightarrow> real \<Rightarrow> real \<Rightarrow> symbol_info \<Rightarrow> real" where
  "policy_lot p master_volume v balance info =
     (case p of
        FIXED \<Rightarrow> v
      | MULTIPLIER \<Rightarrow> master_volume * v
      | PERCENT_BALANCE \<Rightarrow>
          (balance * (v / 100)) / (trade_contract_size info * trade_tick_value info)
      | RISK_BASED \<Rightarrow> master_volume * v)"

text \<open>The bounds of a follower (\<^verbatim>\<open>min_lot\<close> defaults to 0.01, \<^verbatim>\<open>max_lot\<close> to 100) and the
  clamp to them.\<close>

definition lower_bound :: "follower_config \<Rightarrow> real" where
  "lower_bound fc = (case min_lot fc of None \<Rightarrow> 1 / 100 | Some v \<Rightarrow> v)"

definition upper_bound :: "follower_config \<Rightarrow> real" where
  "upper_bound fc = (case max_lot fc of None \<Rightarrow> 100 | Some v \<Rightarrow> v)"

definition clamp_lot :: "follower_config \<Rightarrow> real \<Rightarrow> real" where
  "clamp_lot fc x = max (lower_bound fc) (min (upper_bound fc) x)"

text \<open>A step from \<open>st\<close> to \<open>st'\<close> only appends to the trace, and every call it appends
  satisfies \<open>P\<close>.\<close>

definition adds_only :: "(action \<Rightarrow> bool) \<Rightarrow> 'w copier \<Rightarrow> 'w copier \<Rightarrow> bool" where
  "adds_only P st st' = (\<exists>new. actions st' = actions st @ new \<and> (\<forall>a \<in> set new. P a))"

text \<open>The follower's orders and positions as a synchronisation pass reads them from the
  terminal (nothing when the connection fails or a snapshot call raises).\<close>

definition fetched_orders :: "'w terminal \<Rightarrow> int \<Rightarrow> 'w \<Rightarrow> mt5_order list" where
  "fetched_orders T lg w =
     (case connect_account T lg w of
        (False, w1) \<Rightarrow> []
      | (True, w1) \<Rightarrow>
          (case orders_get T w1 of
             (Inl e, w2) \<Rightarrow> []
           | (Inr pending, w2) \<Rightarrow>
               (case positions_get T w2 of
                  (Inl e, w3) \<Rightarrow> []
                | (Inr positions, w3) \<Rightarrow> pending @ positions)))"

text \<open>The ticket belongs to an order of the snapshot that carries the magic number.\<close>

definition tagged_ticket :: "int \<Rightarrow> mt5_order list \<Rightarrow> int \<Rightarrow> bool" where
  "tagged_ticket mg snapshot t = list_ex (\<lambda>order. o_ticket order = t \<and> o_magic order = mg) snapshot"

text \<open>The follower ticket a call acts on; a create has none yet.\<close>

definition action_ticket :: "action \<Rightarrow> int option" where
  "action_ticket a = (case a of Create l m req \<Rightarrow> None | Modify l t p \<Rightarrow> Some t
                      | Close l t \<Rightarrow> Some t | Cancel l t \<Rightarrow> Some t)"

text \<open>A call stays within the engine's own orders: a create carries the magic number, any
  other call acts on the ticket of a tagged order of the snapshot.\<close>

definition touches_own :: "int \<Rightarrow> mt5_order list \<Rightarrow> action \<Rightarrow> bool" where
  "touches_own mg snapshot a =
     (case a of
        Create l m req \<Rightarrow> r_magic req = mg
      | Modify l t p \<Rightarrow> tagged_ticket mg snapshot t
      | Close l t \<Rightarrow> tagged_ticket mg snapshot t
      | Cancel l t \<Rightarrow> tagged_ticket mg snapshot t)"

text \<open>No order of the snapshot without the magic number is the target of the call.\<close>

definition spares_foreign :: "int \<Rightarrow> mt5_order list \<Rightarrow> action \<Rightarrow> bool" where
  "spares_foreign mg snapshot a =
     list_all (\<lambda>order. o_magic order = mg \<or> action_ticket a \<noteq> Some (o_ticket order)) snapshot"

text \<open>Fetching the master snapshot fails: the connection to the master account fails, or
  one of the two snapshot calls raises, or an object lacks an attribute that is read.\<close>

definition master_fetch_fails :: "'w terminal \<Rightarrow> int \<Rightarrow> 'w \<Rightarrow> bool" where
  "master_fetch_fails T master w =
     (case connect_account T master w of
        (False, w1) \<Rightarrow> True
      | (True, w1) \<Rightarrow>
          (case orders_get T w1 of
             (Inl e, w2) \<Rightarrow> True
           | (Inr pending_orders, w2) \<Rightarrow>
               (case collect_orders order_info_of_pending [] pending_orders of
                  Inl e \<Rightarrow> True
                | Inr orders \<Rightarrow>
                    (case positions_get T w2 of
                       (Inl e, w3) \<Rightarrow> True
                     | (Inr positions, w3) \<Rightarrow>
                         isl (collect_orders order_info_of_position orders positions)))))"

text \<open>The state in which the pass of follower \<open>fc\<close> starts, in a cycle that has fetched the
  snapshot \<open>master_orders\<close> and stands in \<open>st\<close>: the followers listed before \<open>fc\<close> have
  had their passes.\<close>

definition pass_start ::
    "'w terminal \<Rightarrow> config \<Rightarrow> OrderInfo list \<Rightarrow> 'w copier \<Rightarrow> follower_config \<Rightarrow> 'w copier" where
  "pass_start T cfg master_orders st fc =
     sync_all T (takeWhile (\<lambda>f. f \<noteq> fc) (follower_accounts cfg)) master_orders st"

text \<open>The list \<^verbatim>\<open>orders_to_close\<close> that \<^verbatim>\<open>_cleanup_orphaned_orders\<close> builds before its
  closing loop: the findings of method 1, then those of method 2.\<close>

definition orders_to_close ::
    "OrderInfo list \<Rightarrow> (int \<times> mt5_order) list \<Rightarrow> follower_config \<Rightarrow> 'w copier
       \<Rightarrow> (int \<times> mt5_order \<times> int) list" where
  "orders_to_close master_orders live fc st =
     orphans_by_comment (magic_number fc) (map ticket master_orders) live
     @ orphans_by_link (login fc) (map ticket master_orders) live (follower_orders st)"

text \<open>Some follower other than \<open>lg\<close> is still in the link entry of the master ticket.\<close>

definition linked_elsewhere :: "int \<Rightarrow> int \<Rightarrow> (int \<times> (int \<times> int) list) list \<Rightarrow> bool" where
  "linked_elsewhere mt lg fos = list_ex (\<lambda>entry. fst entry \<noteq> lg) (inner_of mt fos)"

text \<open>A live follower object is a pending order when its type is neither
  \<^verbatim>\<open>ORDER_TYPE_BUY\<close> (0) nor \<^verbatim>\<open>ORDER_TYPE_SELL\<close> (1): the test by which the closing loop
  of \<^verbatim>\<open>_cleanup_orphaned_orders\<close> tells a position from a pending order.\<close>

definition is_pending :: "mt5_order \<Rightarrow> bool" where
  "is_pending follower_order =
     (case o_type follower_order of None \<Rightarrow> False | Some ty \<Rightarrow> ty \<noteq> 0 \<and> ty \<noteq> 1)"


section \<open>Recording the trade calls\<close>

text \<open>The four calls by which the engine changes an account. To state that a call reaches
  the terminal, a terminal is wrapped so that it keeps, beside its own state, the list of
  the trade calls it has received; the wrapped terminal answers as the original does.\<close>

datatype trade_call =
    SendCall order_request
  | ModifyCall int modify_params
  | CloseCall int
  | CancelCall int

definition recording :: "'w terminal \<Rightarrow> ('w \<times> trade_call list) terminal" where
  "recording T =
     \<lparr>connect_account = (\<lambda>l w. case connect_account T l (fst w) of
                                   (ok, w') \<Rightarrow> (ok, (w', snd w))),
      orders_get = (\<lambda>w. case orders_get T (fst w) of (r, w') \<Rightarrow> (r, (w', snd w))),
      positions_get = (\<lambda>w. case positions_get T (fst w) of (r, w') \<Rightarrow> (r, (w', snd w))),
      positions_get_ticket = (\<lambda>t w. case positions_get_ticket T t (fst w) of
                                        (found, w') \<Rightarrow> (found, (w', snd w))),
      account_info = (\<lambda>w. case account_info T (fst w) of (r, w') \<Rightarrow> (r, (w', snd w))),
      get_symbol_info = (\<lambda>s l w. case get_symbol_info T s l (fst w) of
                                     (r, w') \<Rightarrow> (r, (w', snd w))),
      send_order = (\<lambda>req w. case send_order T req (fst w) of
                                (r, w') \<Rightarrow> (r, (w', snd w @ [SendCall req]))),
      modify_order = (\<lambda>t p w. case modify_order T t p (fst w) of
                                  (ok, w') \<Rightarrow> (ok, (w', snd w @ [ModifyCall t p]))),
      close_position = (\<lambda>t w. case close_position T t (fst w) of
                                  (ok, w') \<Rightarrow> (ok, (w', snd w @ [CloseCall t]))),
      cancel_order = (\<lambda>t w. case cancel_order T t (fst w) of
                                (ok, w') \<Rightarrow> (ok, (w', snd w @ [CancelCall t])))\<rparr>"

text \<open>The trade calls the terminal has received so far.\<close>

definition calls :: "('w \<times> trade_call list) copier \<Rightarrow> trade_call list" where
  "calls st = snd (world st)"

text \<open>The follower 2 is connected and holds copy 500 of master ticket 100; no trade call
  has been made yet. And a terminal like \<open>offline_terminal\<close> that refuses every cancel.\<close>

definition recorded_copier :: "(int \<times> trade_call list) copier" where
  "recorded_copier =
     \<lparr>follower_orders = [(100, [(2, 500)])], last_master_state = [(100, demo_order)],
      order_sync_status = [], manually_closed = [], cycle_count = 1, actions = [],
      world = (2, [])\<rparr>"

definition stuck_terminal :: "int terminal" where
  "stuck_terminal = offline_terminal\<lparr>cancel_order := (\<lambda>t w. (False, w))\<rparr>"


section \<open>Evaluating concrete runs\<close>

lemmas python_defs =
  or_zero_def py_sub_def tolerance_def py_round_def digit_char_def str_int_def str_nat.simps
  digit_val_def is_space_def strip_def py_int_def startswith_def split_colon_1_def

lemmas model_defs =
  has_key_def inner_of_def logins_of_def link_of_def is_manually_closed_def
  has_master_order_changed_body_def has_master_order_changed_def state_of_orders_def
  detect_master_changes_def map_symbol_def LotCalculationType_of_def apply_limits_and_round_def
  calculate_lot_size_body_def calculate_lot_size_def nested_set_def copy_new_order_def
  check_order_modifications_def mark_manually_closed_def process_master_order_def
  decode_master_ticket_def orphans_by_comment_def orphans_by_link_def close_or_cancel_def remove_link_def
  close_orphan_def
  cleanup_orphaned_orders_def track_own_def sync_orders_to_follower_def
  order_info_of_pending_def order_info_of_position_def get_master_orders_def is_enabled_def
  sync_all_def run_copy_cycle_def Let_def

lemmas demo_defs =
  demo_position_def demo_symbol_info_def fixed_terminal_def demo_follower_def demo_config_def
  initial_copier_def demo_order_def demo_terminal_def linked_copier_def percent_follower_def
  blind_terminal_def orphan_terminal_def second_follower_def two_follower_config_def
  two_follower_terminal_def two_follower_copier_def closed_copier_def mixed_terminal_def
  offline_terminal_def once_terminal_def once_copier_def recorded_copier_def stuck_terminal_def
  recording_def calls_def

section \<open>Change detection: properties\<close>

lemma detect_has_changes_iff:
  "has_changes (detect_master_changes lms cur mos) =
     ((\<exists>t \<in> fst ` set cur. t \<notin> fst ` set lms) \<or> (\<exists>t \<in> fst ` set lms. t \<notin> fst ` set cur)
      \<or> (\<exists>t \<in> fst ` set cur. t \<in> fst ` set lms \<and>
            (case map_of cur t of None \<Rightarrow> False | Some c \<Rightarrow> has_master_order_changed lms c)))"
  by (auto simp: detect_master_changes_def Let_def filter_empty_conv)

lemma body_error_has_last:
  assumes "has_master_order_changed_body lms mo = Inl e"
  shows "ticket mo \<in> fst ` set lms"
proof (cases "map_of lms (ticket mo)")
  case None
  with assms show ?thesis by (simp add: has_master_order_changed_body_def)
next
  case (Some last_order)
  then show ?thesis by (metis map_of_eq_None_iff option.distinct(1))
qed

text \<open>
  Claim C8. An exception inside the per-ticket comparison (\<^verbatim>\<open>_has_master_order_changed\<close>,
  the only place of change detection that can raise) makes the comparison answer
  \<^verbatim>\<open>True\<close>, and \<^verbatim>\<open>_detect_master_changes\<close> then reports \<^verbatim>\<open>has_changes = True\<close> for a
  snapshot that holds this order: the detector errs toward synchronising.
\<close>

theorem detection_error_reports_changes:
  assumes "has_master_order_changed_body lms mo = Inl e"
  shows "has_master_order_changed lms mo \<and>
         (map_of cur (ticket mo) = Some mo \<longrightarrow> has_changes (detect_master_changes lms cur mos))"
proof -
  have changed: "has_master_order_changed lms mo"
    using assms by (simp add: has_master_order_changed_def)
  have "has_changes (detect_master_changes lms cur mos)" if m: "map_of cur (ticket mo) = Some mo"
  proof -
    have k: "ticket mo \<in> fst ` set cur"
      using m by (metis map_of_eq_None_iff option.distinct(1))
    have "ticket mo \<in> fst ` set lms"
      using assms by (rule body_error_has_last)
    with k m changed show ?thesis
      unfolding detect_has_changes_iff by force
  qed
  with changed show ?thesis by blast
qed

theorem detection_error_reports_changes_witness:
  "has_master_order_changed_body [(100, demo_order)] (demo_order\<lparr>price := None\<rparr>) = Inl TypeError
   \<and> has_master_order_changed [(100, demo_order)] (demo_order\<lparr>price := None\<rparr>)
   \<and> has_changes (detect_master_changes [(100, demo_order)]
        [(100, demo_order\<lparr>price := None\<rparr>)] [demo_order\<lparr>price := None\<rparr>])"
proof -
  have h: "has_master_order_changed_body [(100, demo_order)] (demo_order\<lparr>price := None\<rparr>)
             = Inl TypeError"
    by (simp add: has_master_order_changed_body_def demo_order_def py_sub_def)
  have m: "map_of [(100, demo_order\<lparr>price := None\<rparr>)] (ticket (demo_order\<lparr>price := None\<rparr>))
             = Some (demo_order\<lparr>price := None\<rparr>)"
    by (simp add: demo_order_def)
  from detection_error_reports_changes [OF h, of "[(100, demo_order\<lparr>price := None\<rparr>)]"
         "[demo_order\<lparr>price := None\<rparr>]"] h m
  show ?thesis by blast
qed



section \<open>Idempotence of the cycle\<close>

lemma fold_update_ticket_keys:
  "(\<And>t c. map_of d t = Some c \<Longrightarrow> ticket c = t) \<Longrightarrow>
   map_of (foldl (\<lambda>d order. AList.update (ticket order) order d) d xs) t = Some c \<Longrightarrow>
   ticket c = t"
proof (induction xs arbitrary: d)
  case Nil
  then show ?case by simp
next
  case (Cons x xs)
  have "\<And>t c. map_of (AList.update (ticket x) x d) t = Some c \<Longrightarrow> ticket c = t"
    using Cons.prems(1) by (auto simp: update_conv' split: if_splits)
  from Cons.IH [OF this] Cons.prems(2) show ?case by simp
qed

lemma state_of_orders_ticket:
  "map_of (state_of_orders mos) t = Some c \<Longrightarrow> ticket c = t"
  unfolding state_of_orders_def by (rule fold_update_ticket_keys [of "[]"]) simp_all

lemma fold_update_distinct:
  "distinct (map fst d) \<Longrightarrow>
   distinct (map fst (foldl (\<lambda>d order. AList.update (ticket order) order d) d xs))"
  by (induction xs arbitrary: d) (simp_all add: distinct_update)

lemma distinct_state_of_orders: "distinct (map fst (state_of_orders mos))"
  by (simp add: state_of_orders_def fold_update_distinct)

lemma within_tolerance_not_changed:
  assumes "map_of lms (ticket c) = Some l" and "order_within_tolerance l c"
  shows "\<not> has_master_order_changed lms c"
  using assms
  by (auto simp: has_master_order_changed_def has_master_order_changed_body_def
        order_within_tolerance_def delta_within_def py_sub_def Let_def
      split: option.splits)

lemma unchanged_no_changes:
  assumes u: "snapshot_unchanged (state_of_orders prev) (state_of_orders cur)"
  shows "\<not> has_changes (detect_master_changes (state_of_orders prev) (state_of_orders cur) mos)"
proof -
  let ?p = "state_of_orders prev" and ?c = "state_of_orders cur"
  have keys: "fst ` set ?p = fst ` set ?c"
    using u by (simp add: snapshot_unchanged_def)
  have "\<not> has_master_order_changed ?p c" if m: "map_of ?c t = Some c" and tp: "t \<in> fst ` set ?p" for t c
  proof -
    have tc: "ticket c = t" using m by (rule state_of_orders_ticket)
    obtain l where l: "map_of ?p t = Some l"
      using tp by (metis map_of_eq_None_iff not_Some_eq)
    have "(t, c) \<in> set ?c" using m by (rule map_of_SomeD)
    with u l have "order_within_tolerance l c"
      by (auto simp: snapshot_unchanged_def list_all_iff)
    with l tc show ?thesis by (simp add: within_tolerance_not_changed)
  qed
  with keys show ?thesis
    unfolding detect_has_changes_iff by (auto split: option.splits)
qed

lemma last_master_state_run_copy_cycle:
  "last_master_state (run_copy_cycle T cfg st) =
     state_of_orders (fst (get_master_orders T (master_account cfg) (world st)))"
  by (simp add: run_copy_cycle_def Let_def split: prod.splits)

text \<open>
  Claim C2. Take any two consecutive cycles. When the master snapshot fetched by the second
  one is unchanged against the snapshot fetched by the first (the same tickets, every
  common ticket's price, stop-loss, take-profit and volume within 1e-5), the second cycle
  issues no create, modify, close or cancel call: the trace of actions stays as the first
  cycle left it.
\<close>

theorem unchanged_snapshot_issues_nothing:
  assumes first: "get_master_orders T (master_account cfg) (world st0) = (mo1, w1)"
      and second: "get_master_orders T (master_account cfg) (world (run_copy_cycle T cfg st0))
                     = (mo2, w2)"
      and same: "snapshot_unchanged (state_of_orders mo1) (state_of_orders mo2)"
  shows "actions (run_copy_cycle T cfg (run_copy_cycle T cfg st0))
           = actions (run_copy_cycle T cfg st0)"
proof -
  let ?st1 = "run_copy_cycle T cfg st0"
  have lms: "last_master_state ?st1 = state_of_orders mo1"
    using first by (simp add: last_master_state_run_copy_cycle)
  have quiet: "\<not> has_changes (detect_master_changes (state_of_orders mo1) (state_of_orders mo2) mo2)"
    using same by (rule unchanged_no_changes)
  show ?thesis
    using second lms quiet by (simp add: run_copy_cycle_def [of T cfg ?st1] Let_def)
qed

lemma demo_first_cycle:
  "run_copy_cycle demo_terminal demo_config initial_copier =
     \<lparr>follower_orders = [(100, [(2, 500)])], last_master_state = [(100, demo_order)],
      order_sync_status = [], manually_closed = [], cycle_count = 1,
      actions = [Create 2 100
                  \<lparr>r_symbol = ''EURUSD'', r_order_type = 0, r_volume = Some (1 / 2),
                   r_price = Some (11 / 10), r_sl = Some 0, r_tp = Some 0,
                   r_comment = ''Copy:100'', r_magic = 77\<rparr>],
      world = 2\<rparr>"
  by (simp add: model_defs python_defs demo_defs)

lemma demo_master_snapshot:
  "get_master_orders demo_terminal (master_account demo_config) w = ([demo_order], 1)"
  by (simp add: get_master_orders_def order_info_of_pending_def order_info_of_position_def
        demo_defs)

theorem unchanged_snapshot_issues_nothing_witness:
  "snapshot_unchanged (state_of_orders [demo_order]) (state_of_orders [demo_order])
   \<and> actions (run_copy_cycle demo_terminal demo_config initial_copier) \<noteq> []
   \<and> actions (run_copy_cycle demo_terminal demo_config
                (run_copy_cycle demo_terminal demo_config initial_copier))
       = actions (run_copy_cycle demo_terminal demo_config initial_copier)"
proof -
  have same: "snapshot_unchanged (state_of_orders [demo_order]) (state_of_orders [demo_order])"
    by (simp add: snapshot_unchanged_def state_of_orders_def order_within_tolerance_def
          delta_within_def demo_order_def tolerance_def)
  have busy: "actions (run_copy_cycle demo_terminal demo_config initial_copier) \<noteq> []"
    by (simp add: demo_first_cycle)
  from unchanged_snapshot_issues_nothing [OF demo_master_snapshot demo_master_snapshot same]
    same busy
  show ?thesis by blast
qed


section \<open>The tolerance of the modify step\<close>

lemma or_zero_Some [simp]: "or_zero (Some x) = x"
  by (simp add: or_zero_def)

lemma tolerance_not_negative [simp]: "\<not> tolerance < 0"
  by (simp add: tolerance_def)

lemma check_order_modifications_actions:
  "actions (check_order_modifications T mo fo fc st) =
     actions st @
       (if tolerance < sl_delta mo fo \<or> tolerance < tp_delta mo fo \<or> tolerance < price_delta mo fo
        then [Modify (login fc) (o_ticket fo)
               \<lparr>m_price = (if tolerance < price_delta mo fo then price mo else None),
                m_sl = (if tolerance < sl_delta mo fo then Some (or_zero (sl mo)) else None),
                m_tp = (if tolerance < tp_delta mo fo then Some (or_zero (tp mo)) else None)\<rparr>]
        else [])"
  by (cases "o_price_open fo")
     (auto simp: check_order_modifications_def sl_delta_def tp_delta_def price_delta_def Let_def
           split: prod.splits)

text \<open>
  Claim C6, as the code has it. The claim puts the threshold at "at or above 1e-5"; every
  comparison of the source is the strict \<^verbatim>\<open>> 0.00001\<close> on the computed difference.
  Prices are real numbers here, so a delta is the exact difference; the source computes it
  in binary floating point, where the difference of two prices that are 1e-5 apart in
  decimal may come out on either side of the literal. The statement is therefore about the
  delta as computed, and promises nothing at a decimal distance of exactly 1e-5.

  For a linked pair whose master order was marked modified and whose follower order is
  live:

  \<^item> the follower's order is pending: stop-loss, take-profit and price are compared; when
    a delta exceeds the tolerance, exactly one modify call is made, carrying exactly the
    fields whose delta exceeds it; when none does, no call is made;
  \<^item> the follower's order is a filled position: when the stop-loss or take-profit delta
    exceeds the tolerance, exactly one modify call is made, and of these two fields it
    carries exactly those whose delta exceeds it.

  The statement is silent on the price field of a call for a filled position, and on a
  filled position whose stop-loss and take-profit are both within the tolerance.
\<close>

theorem modify_when_delta_exceeds_tolerance:
  assumes "link_of (ticket mo) (login fc) (follower_orders st) = Some ft"
      and "map_of live ft = Some fo"
      and "has_master_order_changed (last_master_state st) mo"
  shows "(is_pending fo \<longrightarrow>
            actions (process_master_order T mo fc live st) =
              actions st @
                (if tolerance < sl_delta mo fo \<or> tolerance < tp_delta mo fo
                    \<or> tolerance < price_delta mo fo
                 then [Modify (login fc) (o_ticket fo)
                        \<lparr>m_price = (if tolerance < price_delta mo fo then price mo else None),
                         m_sl = (if tolerance < sl_delta mo fo
                                 then Some (or_zero (sl mo)) else None),
                         m_tp = (if tolerance < tp_delta mo fo
                                 then Some (or_zero (tp mo)) else None)\<rparr>]
                 else []))
         \<and> (\<not> is_pending fo \<and> (tolerance < sl_delta mo fo \<or> tolerance < tp_delta mo fo) \<longrightarrow>
              (\<exists>p. actions (process_master_order T mo fc live st) =
                      actions st @ [Modify (login fc) (o_ticket fo) p]
                    \<and> m_sl p = (if tolerance < sl_delta mo fo
                                then Some (or_zero (sl mo)) else None)
                    \<and> m_tp p = (if tolerance < tp_delta mo fo
                                then Some (or_zero (tp mo)) else None)))"
proof -
  have step: "actions (process_master_order T mo fc live st)
                = actions (check_order_modifications T mo fo fc st)"
    using assms by (simp add: process_master_order_def Let_def)
  show ?thesis
    unfolding step check_order_modifications_actions by auto
qed

text \<open>Two runs. A pending copy (type 2) at 1.1 whose master order moved its price to 1.2:
  one modify call carrying the price only. Scenario 2 of the specification, on a filled
  position: the master's stop-loss moved from 0 to 1.09, the follower's copy still has none;
  one modify call, with the stop-loss and without a take-profit.\<close>

theorem modify_when_delta_exceeds_tolerance_witness:
  "link_of 100 (login demo_follower) (follower_orders linked_copier) = Some 500
   \<and> is_pending (demo_position 500 2 ''Copy:100'' 77)
   \<and> has_master_order_changed (last_master_state linked_copier)
        (demo_order\<lparr>order_type := 2, price := Some (12 / 10)\<rparr>)
   \<and> actions (process_master_order demo_terminal
                 (demo_order\<lparr>order_type := 2, price := Some (12 / 10)\<rparr>)
                 demo_follower [(500, demo_position 500 2 ''Copy:100'' 77)] linked_copier)
       = [Modify 2 500 \<lparr>m_price = Some (12 / 10), m_sl = None, m_tp = None\<rparr>]
   \<and> \<not> is_pending (demo_position 500 0 ''Copy:100'' 77)
   \<and> has_master_order_changed (last_master_state linked_copier)
        (demo_order\<lparr>sl := Some (109 / 100)\<rparr>)
   \<and> tolerance < sl_delta (demo_order\<lparr>sl := Some (109 / 100)\<rparr>)
                     (demo_position 500 0 ''Copy:100'' 77)
   \<and> (\<exists>p. actions (process_master_order demo_terminal (demo_order\<lparr>sl := Some (109 / 100)\<rparr>)
                     demo_follower [(500, demo_position 500 0 ''Copy:100'' 77)] linked_copier)
             = [Modify 2 500 p]
           \<and> m_sl p = Some (109 / 100) \<and> m_tp p = None)"
proof -
  let ?mp = "demo_order\<lparr>order_type := 2, price := Some (12 / 10)\<rparr>"
  let ?fp = "demo_position 500 2 ''Copy:100'' 77"
  let ?mo = "demo_order\<lparr>sl := Some (109 / 100)\<rparr>"
  let ?fo = "demo_position 500 0 ''Copy:100'' 77"
  have lp: "link_of (ticket ?mp) (login demo_follower) (follower_orders linked_copier) = Some 500"
    by (simp add: link_of_def demo_defs)
  have l: "link_of (ticket ?mo) (login demo_follower) (follower_orders linked_copier) = Some 500"
    by (simp add: link_of_def demo_defs)
  have l100: "link_of 100 (login demo_follower) (follower_orders linked_copier) = Some 500"
    by (simp add: link_of_def demo_defs)
  have mp: "map_of [(500, ?fp)] 500 = Some ?fp"
    by simp
  have m: "map_of [(500, ?fo)] 500 = Some ?fo"
    by simp
  have cp: "has_master_order_changed (last_master_state linked_copier) ?mp"
    by (simp add: has_master_order_changed_def has_master_order_changed_body_def py_sub_def
          or_zero_def tolerance_def demo_defs)
  have c: "has_master_order_changed (last_master_state linked_copier) ?mo"
    by (simp add: has_master_order_changed_def has_master_order_changed_body_def py_sub_def
          or_zero_def tolerance_def demo_defs)
  have pp: "is_pending ?fp"
    by (simp add: is_pending_def demo_defs)
  have p: "\<not> is_pending ?fo"
    by (simp add: is_pending_def demo_defs)
  have dp: "sl_delta ?mp ?fp = 0" "tp_delta ?mp ?fp = 0" "price_delta ?mp ?fp = 1 / 10"
    by (simp_all add: sl_delta_def tp_delta_def price_delta_def or_zero_def demo_defs)
  have d: "sl_delta ?mo ?fo = 109 / 100" "tp_delta ?mo ?fo = 0"
    by (simp_all add: sl_delta_def tp_delta_def or_zero_def demo_defs)
  have pending_run:
    "actions (process_master_order demo_terminal ?mp demo_follower [(500, ?fp)] linked_copier)
       = [Modify 2 500 \<lparr>m_price = Some (12 / 10), m_sl = None, m_tp = None\<rparr>]"
    using modify_when_delta_exceeds_tolerance [OF lp mp cp, of demo_terminal] pp dp
    by (simp add: tolerance_def demo_defs)
  have position_run:
    "\<exists>p. actions (process_master_order demo_terminal ?mo demo_follower [(500, ?fo)] linked_copier)
            = [Modify 2 500 p]
          \<and> m_sl p = Some (109 / 100) \<and> m_tp p = None"
    using modify_when_delta_exceeds_tolerance [OF l m c, of demo_terminal] p d
    by (simp add: tolerance_def demo_defs)
  have exceeds: "tolerance < sl_delta ?mo ?fo"
    by (simp add: d tolerance_def)
  from l100 pp cp pending_run p c exceeds position_run show ?thesis
    by blast
qed

text \<open>The claim fails at the boundary. The master's stop-loss moved from 0 to 0.00002 (so
  the order is marked modified); the follower's pending copy has stop-loss 0.00001. The
  delta against the follower's order is exactly 1e-5, "at or above" the tolerance, and no
  modify call is issued. These values behave the same in binary floating point: 0.00002 is
  twice 0.00001 there as well, so the computed difference is the literal itself.\<close>

theorem modify_at_tolerance_counterexample:
  "has_master_order_changed (last_master_state linked_copier)
     (demo_order\<lparr>order_type := 2, sl := Some (2 / 100000)\<rparr>)
   \<and> is_pending ((demo_position 500 2 ''Copy:100'' 77)\<lparr>o_sl := 1 / 100000\<rparr>)
   \<and> sl_delta (demo_order\<lparr>order_type := 2, sl := Some (2 / 100000)\<rparr>)
        ((demo_position 500 2 ''Copy:100'' 77)\<lparr>o_sl := 1 / 100000\<rparr>) = 1 / 100000
   \<and> tp_delta (demo_order\<lparr>order_type := 2, sl := Some (2 / 100000)\<rparr>)
        ((demo_position 500 2 ''Copy:100'' 77)\<lparr>o_sl := 1 / 100000\<rparr>) = 0
   \<and> price_delta (demo_order\<lparr>order_type := 2, sl := Some (2 / 100000)\<rparr>)
        ((demo_position 500 2 ''Copy:100'' 77)\<lparr>o_sl := 1 / 100000\<rparr>) = 0
   \<and> actions (process_master_order demo_terminal
                (demo_order\<lparr>order_type := 2, sl := Some (2 / 100000)\<rparr>)
                demo_follower [(500, (demo_position 500 2 ''Copy:100'' 77)\<lparr>o_sl := 1 / 100000\<rparr>)]
                linked_copier) = []"
  by (simp add: model_defs python_defs demo_defs sl_delta_def tp_delta_def price_delta_def
        is_pending_def)

section \<open>Lot sizing\<close>

lemma py_round_cases: "py_round x = \<lfloor>x\<rfloor> \<or> py_round x = \<lfloor>x\<rfloor> + 1"
  by (simp add: py_round_def Let_def)

lemma py_round_near: "\<bar>of_int (py_round x) - x\<bar> \<le> 1 / 2"
proof -
  have "of_int \<lfloor>x\<rfloor> \<le> x" and "x < of_int \<lfloor>x\<rfloor> + 1"
    by linarith+
  then show ?thesis
    by (auto simp: py_round_def Let_def abs_le_iff)
qed

lemma py_round_of_int [simp]: "py_round (of_int a) = a"
  by (simp add: py_round_def)

lemma py_round_lower: "of_int a \<le> x \<Longrightarrow> a \<le> py_round x"
proof -
  assume "of_int a \<le> x"
  then have "a \<le> \<lfloor>x\<rfloor>" by (simp add: le_floor_iff)
  with py_round_cases [of x] show ?thesis by auto
qed

lemma py_round_upper: "x \<le> of_int b \<Longrightarrow> py_round x \<le> b"
proof (cases "x = of_int b")
  case True
  then show ?thesis by simp
next
  case False
  assume "x \<le> of_int b"
  with False have "x < of_int b" by simp
  then have "\<lfloor>x\<rfloor> < b" by (simp add: floor_less_iff)
  with py_round_cases [of x] show ?thesis by auto
qed

lemma apply_limits_and_round_found:
  assumes "fst (get_symbol_info T symb (login fc) w) = Some info" and "volume_step info \<noteq> 0"
  shows "fst (apply_limits_and_round T x fc symb w) =
           Inr (Some (of_int (py_round (clamp_lot fc x / volume_step info)) * volume_step info))"
  using assms
  by (cases "get_symbol_info T symb (login fc) w")
     (simp add: apply_limits_and_round_def clamp_lot_def lower_bound_def upper_bound_def Let_def)

lemma calculate_lot_size_body_computed:
  assumes pol: "LotCalculationType_of (lot_calculation fc) = Inr p"
      and meta: "\<forall>w. fst (get_symbol_info T symb (login fc) w) = Some info"
      and acct: "\<forall>w. fst (account_info T w) = Some balance"
      and step: "volume_step info \<noteq> 0"
      and denom: "trade_contract_size info * trade_tick_value info \<noteq> 0"
  shows "fst (calculate_lot_size_body T (Some m) fc symb w) =
           Inr (Some (of_int (py_round (clamp_lot fc (policy_lot p m (lot_value fc) balance info)
                                          / volume_step info)) * volume_step info))"
proof (cases p)
  case FIXED
  with pol meta step show ?thesis
    by (simp add: calculate_lot_size_body_def policy_lot_def apply_limits_and_round_found)
next
  case MULTIPLIER
  with pol meta step show ?thesis
    by (simp add: calculate_lot_size_body_def policy_lot_def apply_limits_and_round_found)
next
  case PERCENT_BALANCE
  obtain w1 where a: "account_info T w = (Some balance, w1)"
    using acct by (metis fst_conv surj_pair)
  obtain w2 where s: "get_symbol_info T symb (login fc) w1 = (Some info, w2)"
    using meta by (metis fst_conv surj_pair)
  from PERCENT_BALANCE pol meta step denom a s show ?thesis
    by (simp add: calculate_lot_size_body_def policy_lot_def apply_limits_and_round_found Let_def)
next
  case RISK_BASED
  with pol meta step show ?thesis
    by (simp add: calculate_lot_size_body_def policy_lot_def apply_limits_and_round_found)
qed

text \<open>
  Claim C5, as the code has it. Let the policy be a known one, the master volume a number,
  and the terminal answer the balance and the symbol's metadata, with a positive
  \<^verbatim>\<open>volume_step\<close> and a non-zero \<^verbatim>\<open>contract_size * tick_value\<close>. Then
  \<^verbatim>\<open>calculate_lot_size\<close> clamps the policy's lot to the bounds first and rounds the clamped
  lot to the nearest multiple of the step after: the result is an integral multiple of
  \<^verbatim>\<open>volume_step\<close>, within half a step of the clamped lot, and it lies in
  \<open>[min_lot, max_lot]\<close> when the two bounds are themselves multiples of the step. The
  rounding comes last, so for other bounds the result can leave them.
\<close>

theorem lot_size_clamped_then_rounded:
  assumes pol: "LotCalculationType_of (lot_calculation fc) = Inr p"
      and meta: "\<forall>w. fst (get_symbol_info T symb (login fc) w) = Some info"
      and acct: "\<forall>w. fst (account_info T w) = Some balance"
      and step: "0 < volume_step info"
      and denom: "trade_contract_size info * trade_tick_value info \<noteq> 0"
  shows "fst (calculate_lot_size T (Some m) fc symb w) =
           Some (of_int (py_round (clamp_lot fc (policy_lot p m (lot_value fc) balance info)
                                     / volume_step info)) * volume_step info)
         \<and> \<bar>of_int (py_round (clamp_lot fc (policy_lot p m (lot_value fc) balance info)
                                / volume_step info)) * volume_step info
              - clamp_lot fc (policy_lot p m (lot_value fc) balance info)\<bar> \<le> volume_step info / 2
         \<and> (\<forall>a b. lower_bound fc = of_int a * volume_step info
                     \<and> upper_bound fc = of_int b * volume_step info \<and> a \<le> b \<longrightarrow>
                lower_bound fc \<le> of_int (py_round (clamp_lot fc (policy_lot p m (lot_value fc) balance info)
                                                      / volume_step info)) * volume_step info
                \<and> of_int (py_round (clamp_lot fc (policy_lot p m (lot_value fc) balance info)
                                       / volume_step info)) * volume_step info \<le> upper_bound fc)"
proof -
  let ?s = "volume_step info"
  let ?c = "clamp_lot fc (policy_lot p m (lot_value fc) balance info)"
  let ?k = "py_round (?c / ?s)"
  have s0: "?s \<noteq> 0" using step by simp
  have body: "fst (calculate_lot_size_body T (Some m) fc symb w) = Inr (Some (of_int ?k * ?s))"
    using pol meta acct s0 denom by (rule calculate_lot_size_body_computed)
  have res: "fst (calculate_lot_size T (Some m) fc symb w) = Some (of_int ?k * ?s)"
    using body by (cases "calculate_lot_size_body T (Some m) fc symb w")
                  (simp add: calculate_lot_size_def)
  have near: "\<bar>of_int ?k * ?s - ?c\<bar> \<le> ?s / 2"
  proof -
    have "\<bar>of_int ?k - ?c / ?s\<bar> * ?s \<le> (1 / 2) * ?s"
      using py_round_near [of "?c / ?s"] step by (intro mult_right_mono) simp_all
    moreover have "\<bar>of_int ?k - ?c / ?s\<bar> * ?s = \<bar>of_int ?k * ?s - ?c\<bar>"
    proof -
      have "\<bar>of_int ?k - ?c / ?s\<bar> * ?s = \<bar>(of_int ?k - ?c / ?s) * ?s\<bar>"
        using step by (simp add: abs_mult)
      also have "(of_int ?k - ?c / ?s) * ?s = of_int ?k * ?s - ?c"
        using s0 by (simp add: left_diff_distrib)
      finally show ?thesis .
    qed
    ultimately show ?thesis by simp
  qed
  have inside: "lower_bound fc \<le> of_int ?k * ?s \<and> of_int ?k * ?s \<le> upper_bound fc"
    if lo: "lower_bound fc = of_int a * ?s" and hi: "upper_bound fc = of_int b * ?s" and ab: "a \<le> b"
    for a b
  proof -
    have le: "lower_bound fc \<le> upper_bound fc"
      using lo hi ab step by (simp add: mult_right_mono)
    then have c1: "lower_bound fc \<le> ?c" and c2: "?c \<le> upper_bound fc"
      by (simp_all add: clamp_lot_def)
    have "of_int a \<le> ?c / ?s" using c1 lo step by (simp add: pos_le_divide_eq)
    then have ka: "a \<le> ?k" by (rule py_round_lower)
    have "?c / ?s \<le> of_int b" using c2 hi step by (simp add: pos_divide_le_eq)
    then have kb: "?k \<le> b" by (rule py_round_upper)
    have "of_int a * ?s \<le> of_int ?k * ?s"
      using ka step by (intro mult_right_mono) simp_all
    moreover have "of_int ?k * ?s \<le> of_int b * ?s"
      using kb step by (intro mult_right_mono) simp_all
    ultimately show ?thesis using lo hi by simp
  qed
  from res near inside show ?thesis by blast
qed

text \<open>Scenario 1 of the specification: master volume 1.0, multiplier 0.5, bounds
  \<open>[0.01, 5.0]\<close>, step 0.01: the follower's volume is 0.5.\<close>

theorem lot_size_clamped_then_rounded_witness:
  "fst (calculate_lot_size demo_terminal (Some 1) demo_follower ''EURUSD'' 2) = Some (1 / 2)
   \<and> lower_bound demo_follower \<le> 1 / 2 \<and> 1 / 2 \<le> upper_bound demo_follower"
proof -
  have pol: "LotCalculationType_of (lot_calculation demo_follower) = Inr MULTIPLIER"
    by (simp add: LotCalculationType_of_def demo_follower_def)
  have meta: "\<forall>w. fst (get_symbol_info demo_terminal ''EURUSD'' (login demo_follower) w)
                    = Some demo_symbol_info"
    by (simp add: demo_terminal_def fixed_terminal_def)
  have acct: "\<forall>w. fst (account_info demo_terminal w) = Some 10000"
    by (simp add: demo_terminal_def fixed_terminal_def)
  have step: "0 < volume_step demo_symbol_info"
    by (simp add: demo_symbol_info_def)
  have denom: "trade_contract_size demo_symbol_info * trade_tick_value demo_symbol_info \<noteq> 0"
    by (simp add: demo_symbol_info_def)
  have c: "clamp_lot demo_follower (policy_lot MULTIPLIER 1 (lot_value demo_follower) 10000
             demo_symbol_info) = 1 / 2"
    by (simp add: clamp_lot_def policy_lot_def lower_bound_def upper_bound_def demo_follower_def)
  have k: "py_round ((1 / 2) / volume_step demo_symbol_info) = 50"
    by (simp add: py_round_def demo_symbol_info_def)
  have lo: "lower_bound demo_follower = of_int 1 * volume_step demo_symbol_info"
    by (simp add: lower_bound_def demo_follower_def demo_symbol_info_def)
  have hi: "upper_bound demo_follower = of_int 500 * volume_step demo_symbol_info"
    by (simp add: upper_bound_def demo_follower_def demo_symbol_info_def)
  from lot_size_clamped_then_rounded [OF pol meta acct step denom, of 1 2]
  have "fst (calculate_lot_size demo_terminal (Some 1) demo_follower ''EURUSD'' 2)
          = Some (of_int 50 * volume_step demo_symbol_info)"
    and "\<forall>a b. lower_bound demo_follower = of_int a * volume_step demo_symbol_info
               \<and> upper_bound demo_follower = of_int b * volume_step demo_symbol_info \<and> a \<le> b \<longrightarrow>
            lower_bound demo_follower \<le> of_int 50 * volume_step demo_symbol_info
            \<and> of_int 50 * volume_step demo_symbol_info \<le> upper_bound demo_follower"
    unfolding c k by blast+
  with lo hi show ?thesis
    by (auto simp: demo_symbol_info_def)
qed

text \<open>The claim fails where a bound is not a multiple of the step. A fixed lot of 0.26 with
  \<^verbatim>\<open>max_lot = 0.26\<close> and step 0.1 is clamped to 0.26 and then rounded to 3 steps: the
  follower's volume is 0.3, above \<^verbatim>\<open>max_lot\<close>.\<close>

theorem lot_size_leaves_bounds_counterexample:
  "fst (calculate_lot_size
          (fixed_terminal [] [] (Some (demo_symbol_info\<lparr>volume_step := 1 / 10\<rparr>)))
          (Some 1)
          (demo_follower\<lparr>lot_calculation := ''fixed'', lot_value := 26 / 100,
                          max_lot := Some (26 / 100)\<rparr>)
          ''EURUSD'' 2) = Some (3 / 10)
   \<and> upper_bound (demo_follower\<lparr>lot_calculation := ''fixed'', lot_value := 26 / 100,
                                 max_lot := Some (26 / 100)\<rparr>) < 3 / 10"
  by (simp add: calculate_lot_size_def calculate_lot_size_body_def LotCalculationType_of_def
        apply_limits_and_round_def py_round_def upper_bound_def Let_def demo_defs)


section \<open>Missing symbol metadata\<close>

lemma apply_limits_and_round_missing:
  assumes "fst (get_symbol_info T symb (login fc) w) = None"
  shows "fst (apply_limits_and_round T x fc symb w) = Inr (Some (clamp_lot fc x))"
  using assms
  by (cases "get_symbol_info T symb (login fc) w")
     (simp add: apply_limits_and_round_def clamp_lot_def lower_bound_def upper_bound_def Let_def)

lemma calculate_lot_size_missing:
  assumes pol: "LotCalculationType_of (lot_calculation fc) = Inr p"
      and missing: "\<forall>w. fst (get_symbol_info T symb (login fc) w) = None"
  shows "fst (calculate_lot_size T mv fc symb w) =
           (case p of
              FIXED \<Rightarrow> Some (clamp_lot fc (lot_value fc))
            | MULTIPLIER \<Rightarrow> map_option (\<lambda>m. clamp_lot fc (m * lot_value fc)) mv
            | PERCENT_BALANCE \<Rightarrow> mv
            | RISK_BASED \<Rightarrow> map_option (\<lambda>m. clamp_lot fc (m * lot_value fc)) mv)"
proof (cases p)
  case FIXED
  have "fst (apply_limits_and_round T (lot_value fc) fc symb w) = Inr (Some (clamp_lot fc (lot_value fc)))"
    using missing by (simp add: apply_limits_and_round_missing)
  with FIXED pol show ?thesis
    by (cases "apply_limits_and_round T (lot_value fc) fc symb w")
       (simp add: calculate_lot_size_def calculate_lot_size_body_def)
next
  case MULTIPLIER
  show ?thesis
  proof (cases mv)
    case None
    with MULTIPLIER pol show ?thesis
      by (simp add: calculate_lot_size_def calculate_lot_size_body_def)
  next
    case (Some m)
    have "fst (apply_limits_and_round T (m * lot_value fc) fc symb w)
            = Inr (Some (clamp_lot fc (m * lot_value fc)))"
      using missing by (simp add: apply_limits_and_round_missing)
    with Some MULTIPLIER pol show ?thesis
      by (cases "apply_limits_and_round T (m * lot_value fc) fc symb w")
         (simp add: calculate_lot_size_def calculate_lot_size_body_def)
  qed
next
  case PERCENT_BALANCE
  obtain ai w1 where a: "account_info T w = (ai, w1)"
    by (cases "account_info T w")
  obtain w2 where s: "get_symbol_info T symb (login fc) w1 = (None, w2)"
    using missing by (metis fst_conv surj_pair)
  from PERCENT_BALANCE pol a s show ?thesis
    by (cases ai) (simp_all add: calculate_lot_size_def calculate_lot_size_body_def)
next
  case RISK_BASED
  show ?thesis
  proof (cases mv)
    case None
    with RISK_BASED pol show ?thesis
      by (simp add: calculate_lot_size_def calculate_lot_size_body_def)
  next
    case (Some m)
    have "fst (apply_limits_and_round T (m * lot_value fc) fc symb w)
            = Inr (Some (clamp_lot fc (m * lot_value fc)))"
      using missing by (simp add: apply_limits_and_round_missing)
    with Some RISK_BASED pol show ?thesis
      by (cases "apply_limits_and_round T (m * lot_value fc) fc symb w")
         (simp add: calculate_lot_size_def calculate_lot_size_body_def)
  qed
qed

lemma copy_new_order_actions:
  "actions (copy_new_order T mo fc st) =
     actions st @
       (case get_symbol_info T (map_symbol (symbol mo) fc) (login fc) (world st) of
          (None, w1) \<Rightarrow> []
        | (Some info, w1) \<Rightarrow>
            [Create (login fc) (ticket mo)
               \<lparr>r_symbol = map_symbol (symbol mo) fc, r_order_type = order_type mo,
                r_volume = fst (calculate_lot_size T (volume mo) fc (map_symbol (symbol mo) fc) w1),
                r_price = price mo, r_sl = sl mo, r_tp = tp mo,
                r_comment = ''Copy:'' @ str_int (ticket mo), r_magic = magic_number fc\<rparr>])"
  by (simp add: copy_new_order_def Let_def split: prod.splits option.splits)

text \<open>
  Claim C7, as the code has it. A copy attempt first looks the follower's symbol up: when
  that lookup fails the attempt ends without a create request; when it succeeds, exactly
  one create request is sent, with the volume the calculator returns. Inside the
  calculator, for a known policy on a terminal that never finds the symbol, only the
  percent-of-balance policy returns the unmodified master volume; the fixed, multiplier
  and risk-based policies return their clamped, unrounded lot.
\<close>

theorem missing_metadata_behaviour:
  assumes pol: "LotCalculationType_of (lot_calculation fc) = Inr p"
  shows "actions (copy_new_order T mo fc st) =
           actions st @
             (case get_symbol_info T (map_symbol (symbol mo) fc) (login fc) (world st) of
                (None, w1) \<Rightarrow> []
              | (Some info, w1) \<Rightarrow>
                  [Create (login fc) (ticket mo)
                     \<lparr>r_symbol = map_symbol (symbol mo) fc, r_order_type = order_type mo,
                      r_volume = fst (calculate_lot_size T (volume mo) fc
                                        (map_symbol (symbol mo) fc) w1),
                      r_price = price mo, r_sl = sl mo, r_tp = tp mo,
                      r_comment = ''Copy:'' @ str_int (ticket mo), r_magic = magic_number fc\<rparr>])
         \<and> ((\<forall>w. fst (get_symbol_info T symb (login fc) w) = None) \<longrightarrow>
              fst (calculate_lot_size T mv fc symb w0) =
                (case p of
                   FIXED \<Rightarrow> Some (clamp_lot fc (lot_value fc))
                 | MULTIPLIER \<Rightarrow> map_option (\<lambda>m. clamp_lot fc (m * lot_value fc)) mv
                 | PERCENT_BALANCE \<Rightarrow> mv
                 | RISK_BASED \<Rightarrow> map_option (\<lambda>m. clamp_lot fc (m * lot_value fc)) mv))"
proof (intro conjI impI)
  show "actions (copy_new_order T mo fc st) =
           actions st @
             (case get_symbol_info T (map_symbol (symbol mo) fc) (login fc) (world st) of
                (None, w1) \<Rightarrow> []
              | (Some info, w1) \<Rightarrow>
                  [Create (login fc) (ticket mo)
                     \<lparr>r_symbol = map_symbol (symbol mo) fc, r_order_type = order_type mo,
                      r_volume = fst (calculate_lot_size T (volume mo) fc
                                        (map_symbol (symbol mo) fc) w1),
                      r_price = price mo, r_sl = sl mo, r_tp = tp mo,
                      r_comment = ''Copy:'' @ str_int (ticket mo), r_magic = magic_number fc\<rparr>])"
    by (rule copy_new_order_actions)
next
  assume "\<forall>w. fst (get_symbol_info T symb (login fc) w) = None"
  with pol show "fst (calculate_lot_size T mv fc symb w0) =
                (case p of
                   FIXED \<Rightarrow> Some (clamp_lot fc (lot_value fc))
                 | MULTIPLIER \<Rightarrow> map_option (\<lambda>m. clamp_lot fc (m * lot_value fc)) mv
                 | PERCENT_BALANCE \<Rightarrow> mv
                 | RISK_BASED \<Rightarrow> map_option (\<lambda>m. clamp_lot fc (m * lot_value fc)) mv)"
    by (rule calculate_lot_size_missing)
qed

theorem missing_metadata_behaviour_witness:
  "(\<forall>w. fst (get_symbol_info blind_terminal ''EURUSD'' (login percent_follower) w) = None)
   \<and> fst (calculate_lot_size blind_terminal (Some 1) percent_follower ''EURUSD'' 2) = Some 1
   \<and> actions (copy_new_order blind_terminal demo_order percent_follower initial_copier)
       = actions initial_copier"
proof -
  have pol: "LotCalculationType_of (lot_calculation percent_follower) = Inr PERCENT_BALANCE"
    by (simp add: LotCalculationType_of_def demo_defs)
  have missing: "\<forall>w. fst (get_symbol_info blind_terminal ''EURUSD'' (login percent_follower) w) = None"
    by (simp add: demo_defs)
  have look: "get_symbol_info blind_terminal (map_symbol (symbol demo_order) percent_follower)
                (login percent_follower) (world initial_copier) = (None, 0)"
    by (simp add: map_symbol_def demo_defs)
  from missing_metadata_behaviour [OF pol, of blind_terminal demo_order initial_copier
         "''EURUSD''" "Some 1" 2] missing look
  show ?thesis by simp
qed

text \<open>The claim fails at its own scenario 5. The calculator would return the master volume,
  but the copy attempt never reaches it: the symbol lookup at the start of
  \<^verbatim>\<open>_copy_new_order\<close> fails and the master order is not copied, here through the whole
  cycle.\<close>

theorem copy_skipped_without_metadata_counterexample:
  "fst (calculate_lot_size blind_terminal (Some 1) percent_follower ''EURUSD'' 2) = Some 1
   \<and> actions (copy_new_order blind_terminal demo_order percent_follower initial_copier) = []
   \<and> actions (run_copy_cycle blind_terminal
                (demo_config\<lparr>follower_accounts := [percent_follower]\<rparr>) initial_copier) = []"
  by (simp add: model_defs python_defs demo_defs)


section \<open>Orphan cleanup: one action per follower ticket\<close>

text \<open>
  Claim C4 asks for at most one action per follower ticket and cycle. After the master
  closed ticket 100, the follower's copy 500 is found twice: by its comment (method 1) and
  by its link (method 2). The two findings are appended to the same list without a check
  for duplicates, and the closing loop cancels ticket 500 twice in the one cycle.
\<close>

theorem orphan_cancelled_twice:
  "orphans_by_comment 77 [] [(500, demo_position 500 2 ''Copy:100'' 77)]
     = [(500, demo_position 500 2 ''Copy:100'' 77, 100)]
   \<and> orphans_by_link 2 [] [(500, demo_position 500 2 ''Copy:100'' 77)]
         (follower_orders linked_copier)
     = [(500, demo_position 500 2 ''Copy:100'' 77, 100)]
   \<and> actions (run_copy_cycle orphan_terminal demo_config linked_copier)
     = [Cancel 2 500, Cancel 2 500]"
  by (simp add: model_defs python_defs demo_defs)


section \<open>Orphan cleanup: what is purged\<close>

lemma close_orphan_keeps_manually_closed:
  "manually_closed (close_orphan T lg st entry) = manually_closed st"
  by (simp add: close_orphan_def Let_def split: prod.splits option.splits)

lemma delete_empty_lookup:
  assumes "AList.delete k al = []" and "l \<noteq> k"
  shows "map_of al l = None"
proof -
  have "map_of (AList.delete k al) l = map_of al l"
    using assms(2) by simp
  with assms(1) show ?thesis by simp
qed

lemma remove_link_other:
  assumes "m \<noteq> mt \<or> l \<noteq> lg"
  shows "link_of m l (remove_link mt lg fos) = link_of m l fos"
proof (cases "m = mt")
  case False
  then show ?thesis
    by (simp add: remove_link_def link_of_def Let_def update_conv' delete_conv')
next
  case True
  with assms have l: "l \<noteq> lg" by simp
  show ?thesis
  proof (cases "map_of fos mt")
    case None
    with True l show ?thesis
      by (simp add: remove_link_def link_of_def Let_def inner_of_def has_key_def
            update_conv' delete_conv')
  next
    case (Some inner)
    show ?thesis
    proof (cases "has_key lg inner")
      case k: True
      show ?thesis
      proof (cases "AList.delete lg inner = []")
        case e: True
        from delete_empty_lookup [OF e l] True Some k e show ?thesis
          by (simp add: remove_link_def link_of_def Let_def inner_of_def update_conv' delete_conv')
      next
        case e: False
        with True Some k l show ?thesis
          by (simp add: remove_link_def link_of_def Let_def inner_of_def update_conv' delete_conv')
      qed
    next
      case k: False
      with True Some l show ?thesis
        by (simp add: remove_link_def link_of_def Let_def inner_of_def update_conv' delete_conv')
    qed
  qed
qed

lemma remove_link_own:
  assumes "has_key mt fos"
  shows "link_of mt lg (remove_link mt lg fos) = None"
proof -
  obtain inner where i: "map_of fos mt = Some inner"
    using assms by (auto simp: has_key_def)
  show ?thesis
  proof (cases "has_key lg inner")
    case True
    with i show ?thesis
      by (simp add: remove_link_def link_of_def Let_def inner_of_def update_conv' delete_conv')
  next
    case False
    with i show ?thesis
      by (simp add: remove_link_def link_of_def Let_def inner_of_def has_key_def
            update_conv' delete_conv')
  qed
qed

text \<open>What one round of the closing loop does to the tables, by the result of its call.\<close>

lemma close_orphan_unfold:
  assumes "close_or_cancel T t order (world st) = ((is_position, success), w2)"
  shows "close_orphan T lg st (t, order, mt) =
           st\<lparr>world := w2,
              actions := actions st @ [if is_position then Close lg t else Cancel lg t],
              follower_orders := (if success \<and> has_key mt (follower_orders st)
                                  then remove_link mt lg (follower_orders st)
                                  else follower_orders st)\<rparr>"
  using assms by (simp add: close_orphan_def Let_def)

lemma close_orphan_other_links:
  assumes "m \<noteq> mt \<or> l \<noteq> lg"
  shows "link_of m l (follower_orders (close_orphan T lg st (t, order, mt)))
           = link_of m l (follower_orders st)"
proof -
  obtain is_position success w2
    where c: "close_or_cancel T t order (world st) = ((is_position, success), w2)"
    by (metis surj_pair)
  show ?thesis
    by (simp add: close_orphan_unfold [OF c] remove_link_other [OF assms])
qed

lemma close_orphan_own_link:
  "link_of mt lg (follower_orders (close_orphan T lg st (t, order, mt))) = None
   \<or> link_of mt lg (follower_orders (close_orphan T lg st (t, order, mt)))
       = link_of mt lg (follower_orders st)"
proof -
  obtain is_position success w2
    where c: "close_or_cancel T t order (world st) = ((is_position, success), w2)"
    by (metis surj_pair)
  show ?thesis
    by (simp add: close_orphan_unfold [OF c] remove_link_own)
qed

lemma close_or_cancel_succeeds:
  assumes "\<forall>t w. fst (close_position T t w)" and "\<forall>t w. fst (cancel_order T t w)"
  shows "snd (fst (close_or_cancel T t order w))"
proof -
  obtain is_position w1
    where p: "(case o_type order of Some ty \<Rightarrow> (ty = 0 \<or> ty = 1, w)
               | None \<Rightarrow> positions_get_ticket T t w) = (is_position, w1)"
    by (metis surj_pair)
  obtain success w2
    where s: "(if is_position then close_position T t w1 else cancel_order T t w1) = (success, w2)"
    by (metis surj_pair)
  have "success"
    using s assms by (metis fst_conv)
  with p s show ?thesis
    by (simp add: close_or_cancel_def)
qed

lemma close_orphan_success_unlinks:
  assumes "\<forall>t w. fst (close_position T t w)" and "\<forall>t w. fst (cancel_order T t w)"
  shows "link_of mt lg (follower_orders (close_orphan T lg st (t, order, mt))) = None"
proof -
  obtain is_position success w2
    where c: "close_or_cancel T t order (world st) = ((is_position, success), w2)"
    by (metis surj_pair)
  have s: "success"
    using close_or_cancel_succeeds [OF assms, of t order "world st"] c by simp
  show ?thesis
  proof (cases "has_key mt (follower_orders st)")
    case True
    with s show ?thesis
      by (simp add: close_orphan_unfold [OF c] remove_link_own)
  next
    case False
    then have "link_of mt lg (follower_orders st) = None"
      by (simp add: link_of_def has_key_def)
    with False show ?thesis
      by (simp add: close_orphan_unfold [OF c])
  qed
qed

lemma closing_loop_keeps_manually_closed:
  "manually_closed (foldl (close_orphan T lg) st entries) = manually_closed st"
  by (induction entries arbitrary: st) (simp_all add: close_orphan_keeps_manually_closed)

lemma closing_loop_other_links:
  assumes "l \<noteq> lg"
  shows "link_of m l (follower_orders (foldl (close_orphan T lg) st entries))
           = link_of m l (follower_orders st)"
proof (induction entries arbitrary: st)
  case Nil
  then show ?case by simp
next
  case (Cons e es)
  obtain t order mt where e: "e = (t, order, mt)" by (cases e)
  show ?case
    using assms by (simp add: Cons.IH e close_orphan_other_links)
qed

lemma closing_loop_stays_unlinked:
  assumes "link_of m l (follower_orders st) = None"
  shows "link_of m l (follower_orders (foldl (close_orphan T lg) st entries)) = None"
  using assms
proof (induction entries arbitrary: st)
  case Nil
  then show ?case by simp
next
  case (Cons e es)
  obtain t order mt where e: "e = (t, order, mt)" by (cases e)
  have "link_of m l (follower_orders (close_orphan T lg st e)) = None"
  proof (cases "m = mt \<and> l = lg")
    case True
    with close_orphan_own_link [of mt lg T st t order] Cons.prems e show ?thesis by auto
  next
    case False
    then have "m \<noteq> mt \<or> l \<noteq> lg" by simp
    from close_orphan_other_links [OF this, where T = T and st = st and t = t and order = order]
    have "link_of m l (follower_orders (close_orphan T lg st e)) = link_of m l (follower_orders st)"
      by (simp only: e)
    with Cons.prems show ?thesis by simp
  qed
  from Cons.IH [OF this] show ?case by simp
qed

lemma closing_loop_unlinks:
  assumes ok: "\<forall>t w. fst (close_position T t w)" "\<forall>t w. fst (cancel_order T t w)"
      and "(t, order, mt) \<in> set entries"
  shows "link_of mt lg (follower_orders (foldl (close_orphan T lg) st entries)) = None"
  using assms(3)
proof (induction entries arbitrary: st)
  case Nil
  then show ?case by simp
next
  case (Cons e es)
  show ?case
  proof (cases "e = (t, order, mt)")
    case True
    have "link_of mt lg (follower_orders (close_orphan T lg st (t, order, mt))) = None"
      using ok by (rule close_orphan_success_unlinks)
    then have "link_of mt lg (follower_orders (close_orphan T lg st e)) = None"
      using True by simp
    then show ?thesis
      by (simp add: closing_loop_stays_unlinked)
  next
    case False
    with Cons.prems have "(t, order, mt) \<in> set es" by simp
    from Cons.IH [OF this] show ?thesis by simp
  qed
qed

lemma linked_orphan_listed:
  assumes "mt \<notin> set master_tickets"
      and "link_of mt lg fos = Some ft"
      and "map_of live ft = Some order"
  shows "(ft, order, mt) \<in> set (orphans_by_link lg master_tickets live fos)"
proof -
  obtain followers where f: "map_of fos mt = Some followers" and l: "map_of followers lg = Some ft"
    using assms(2) by (auto simp: link_of_def split: option.splits)
  have entry: "(mt, followers) \<in> set fos"
    using f by (rule map_of_SomeD)
  let ?found = "\<lambda>(mt, followers).
                    if mt \<notin> set master_tickets then
                      (case map_of followers lg of
                         None \<Rightarrow> []
                       | Some follower_ticket \<Rightarrow>
                           (case map_of live follower_ticket of
                              None \<Rightarrow> []
                            | Some order \<Rightarrow> [(follower_ticket, order, mt)]))
                    else []"
  have "(ft, order, mt) \<in> set (?found (mt, followers))"
    using assms(1,3) l by simp
  with entry have "\<exists>e \<in> set fos. (ft, order, mt) \<in> set (?found e)"
    by blast
  then show ?thesis
    unfolding orphans_by_link_def set_concat by (simp only: set_map) blast
qed

lemma remove_link_inner:
  "remove_link mt lg fos =
     (if AList.delete lg (inner_of mt fos) = []
      then AList.delete mt (AList.update mt [] fos)
      else AList.update mt (AList.delete lg (inner_of mt fos)) fos)"
proof (cases "has_key lg (inner_of mt fos)")
  case True
  then show ?thesis by (simp add: remove_link_def Let_def)
next
  case False
  then have "lg \<notin> fst ` set (inner_of mt fos)"
    by (simp add: has_key_def map_of_eq_None_iff)
  then have "AList.delete lg (inner_of mt fos) = inner_of mt fos"
    by (rule delete_id)
  with False show ?thesis by (simp add: remove_link_def Let_def)
qed

lemma inner_of_remove_link:
  assumes "has_key mt fos"
  shows "inner_of m (remove_link mt lg fos) =
           (if m = mt then AList.delete lg (inner_of mt fos) else inner_of m fos)"
  by (simp add: remove_link_inner inner_of_def update_conv' delete_conv')

lemma has_key_remove_link:
  assumes "has_key mt fos"
  shows "has_key m (remove_link mt lg fos) =
           (if m = mt then linked_elsewhere mt lg fos else has_key m fos)"
proof -
  have "(AList.delete lg (inner_of mt fos) \<noteq> []) = linked_elsewhere mt lg fos"
    by (force simp: linked_elsewhere_def AList.delete_eq filter_empty_conv list_ex_iff)
  then show ?thesis
    by (auto simp: remove_link_inner has_key_def update_conv' delete_conv')
qed

lemma linked_elsewhere_remove_link:
  assumes "has_key mt fos"
  shows "linked_elsewhere m lg (remove_link mt lg fos) = linked_elsewhere m lg fos"
proof -
  have "list_ex (\<lambda>entry. fst entry \<noteq> lg) (AList.delete lg inner)
          = list_ex (\<lambda>entry. fst entry \<noteq> lg) inner" for inner :: "(int \<times> int) list"
    by (force simp: AList.delete_eq list_ex_iff)
  then show ?thesis
    by (simp add: linked_elsewhere_def inner_of_remove_link [OF assms])
qed

lemma not_linked_without_key:
  "\<not> has_key mt fos \<Longrightarrow> \<not> linked_elsewhere mt lg fos"
  by (simp add: has_key_def linked_elsewhere_def inner_of_def)

lemma close_orphan_linked_elsewhere:
  "linked_elsewhere m lg (follower_orders (close_orphan T lg s e))
     = linked_elsewhere m lg (follower_orders s)"
proof -
  obtain t order mt where e: "e = (t, order, mt)" by (cases e)
  obtain is_position success w2
    where c: "close_or_cancel T t order (world s) = ((is_position, success), w2)"
    by (metis surj_pair)
  show ?thesis
    by (simp add: e close_orphan_unfold [OF c] linked_elsewhere_remove_link)
qed

lemma close_orphan_keeps_entry_rule:
  assumes "has_key m (follower_orders s) = linked_elsewhere m lg (follower_orders s)"
  shows "has_key m (follower_orders (close_orphan T lg s e))
           = linked_elsewhere m lg (follower_orders (close_orphan T lg s e))"
proof -
  obtain t order mt where e: "e = (t, order, mt)" by (cases e)
  obtain is_position success w2
    where c: "close_or_cancel T t order (world s) = ((is_position, success), w2)"
    by (metis surj_pair)
  show ?thesis
    using assms
    by (simp add: e close_orphan_unfold [OF c] linked_elsewhere_remove_link has_key_remove_link)
qed

lemma close_orphan_success_entry_rule:
  assumes "snd (fst (close_or_cancel T t order (world s)))"
  shows "link_of mt lg (follower_orders (close_orphan T lg s (t, order, mt))) = None
         \<and> has_key mt (follower_orders (close_orphan T lg s (t, order, mt)))
             = linked_elsewhere mt lg (follower_orders (close_orphan T lg s (t, order, mt)))"
proof -
  obtain is_position success w2
    where c: "close_or_cancel T t order (world s) = ((is_position, success), w2)"
    by (metis surj_pair)
  have s: "success" using assms c by simp
  show ?thesis
  proof (cases "has_key mt (follower_orders s)")
    case True
    with s show ?thesis
      by (simp add: close_orphan_unfold [OF c] remove_link_own has_key_remove_link
            linked_elsewhere_remove_link)
  next
    case False
    then have "link_of mt lg (follower_orders s) = None"
      by (simp add: link_of_def has_key_def)
    with False not_linked_without_key [OF False, of lg] show ?thesis
      by (simp add: close_orphan_unfold [OF c])
  qed
qed

lemma closing_loop_linked_elsewhere:
  "linked_elsewhere m lg (follower_orders (foldl (close_orphan T lg) s entries))
     = linked_elsewhere m lg (follower_orders s)"
  by (induction entries arbitrary: s) (simp_all add: close_orphan_linked_elsewhere)

lemma closing_loop_keeps_entry_rule:
  assumes "has_key m (follower_orders s) = linked_elsewhere m lg (follower_orders s)"
  shows "has_key m (follower_orders (foldl (close_orphan T lg) s entries))
           = linked_elsewhere m lg (follower_orders (foldl (close_orphan T lg) s entries))"
  using assms
proof (induction entries arbitrary: s)
  case Nil
  then show ?case by simp
next
  case (Cons e es)
  from Cons.IH [OF close_orphan_keeps_entry_rule [OF Cons.prems]] show ?case by simp
qed

lemma orphans_by_comment_absent:
  assumes "(t, order, mt) \<in> set (orphans_by_comment mg master_tickets live)"
  shows "mt \<notin> set master_tickets"
proof -
  let ?found = "\<lambda>(t, order).
                    if o_magic order \<noteq> mg then []
                    else (case decode_master_ticket order of
                            None \<Rightarrow> []
                          | Some mt \<Rightarrow> if mt \<notin> set master_tickets then [(t, order, mt)] else [])"
  from assms have "\<exists>e \<in> set live. (t, order, mt) \<in> set (?found e)"
    unfolding orphans_by_comment_def set_concat set_map by blast
  then obtain e where "(t, order, mt) \<in> set (?found e)"
    by blast
  moreover obtain t' order' where "e = (t', order')"
    by (cases e)
  ultimately have "(t, order, mt) \<in> set (if o_magic order' \<noteq> mg then []
                    else (case decode_master_ticket order' of
                            None \<Rightarrow> []
                          | Some mt \<Rightarrow> if mt \<notin> set master_tickets then [(t', order', mt)] else []))"
    by (simp only: case_prod_conv)
  then show ?thesis
    by (cases "o_magic order' = mg"; cases "decode_master_ticket order'")
       (auto split: if_splits)
qed

lemma orphans_by_link_absent:
  assumes "(t, order, mt) \<in> set (orphans_by_link lg master_tickets live fos)"
  shows "mt \<notin> set master_tickets"
proof -
  let ?found = "\<lambda>(mt, followers).
                    if mt \<notin> set master_tickets then
                      (case map_of followers lg of
                         None \<Rightarrow> []
                       | Some follower_ticket \<Rightarrow>
                           (case map_of live follower_ticket of
                              None \<Rightarrow> []
                            | Some order \<Rightarrow> [(follower_ticket, order, mt)]))
                    else []"
  from assms have "\<exists>e \<in> set fos. (t, order, mt) \<in> set (?found e)"
    unfolding orphans_by_link_def set_concat set_map by blast
  then obtain e where "(t, order, mt) \<in> set (?found e)"
    by blast
  moreover obtain m followers where "e = (m, followers)"
    by (cases e)
  ultimately have "(t, order, mt) \<in> set (
                    if m \<notin> set master_tickets then
                      (case map_of followers lg of
                         None \<Rightarrow> []
                       | Some follower_ticket \<Rightarrow>
                           (case map_of live follower_ticket of
                              None \<Rightarrow> []
                            | Some order \<Rightarrow> [(follower_ticket, order, m)]))
                    else [])"
    by (simp only: case_prod_conv)
  then show ?thesis
    by (cases "m \<in> set master_tickets"; cases "map_of followers lg")
       (auto split: option.splits)
qed

lemma cleanup_as_loop:
  "cleanup_orphaned_orders T master_orders live fc st =
     foldl (close_orphan T (login fc)) st (orders_to_close master_orders live fc st)"
  by (simp add: cleanup_orphaned_orders_def orders_to_close_def Let_def)

text \<open>
  Claim C3, as the code has it. Take any round of the closing loop of a follower's cleanup
  whose entry names master ticket \<open>mt\<close>, and let the close or cancel call of that round
  succeed (the calls of the other rounds may fail). Then \<open>mt\<close> is absent from the master
  snapshot, and after the cleanup this follower's link of \<open>mt\<close> is removed; the link entry
  of \<open>mt\<close> itself is gone exactly when no other follower is linked to it; every link of
  the other followers is as before (each is removed by that follower's own pass); and the
  manual-close record is as before: no step of the engine ever removes an entry from it.
\<close>

theorem successful_close_removes_own_link:
  assumes entries: "orders_to_close master_orders live fc st = pre @ (t, order, mt) # post"
      and success: "snd (fst (close_or_cancel T t order
                                (world (foldl (close_orphan T (login fc)) st pre))))"
  shows "mt \<notin> ticket ` set master_orders
         \<and> link_of mt (login fc)
             (follower_orders (cleanup_orphaned_orders T master_orders live fc st)) = None
         \<and> has_key mt (follower_orders (cleanup_orphaned_orders T master_orders live fc st))
             = linked_elsewhere mt (login fc) (follower_orders st)
         \<and> (\<forall>m l. l \<noteq> login fc \<longrightarrow>
               link_of m l (follower_orders (cleanup_orphaned_orders T master_orders live fc st))
                 = link_of m l (follower_orders st))
         \<and> manually_closed (cleanup_orphaned_orders T master_orders live fc st)
             = manually_closed st"
proof -
  let ?lg = "login fc"
  let ?s0 = "foldl (close_orphan T ?lg) st pre"
  let ?s1 = "close_orphan T ?lg ?s0 (t, order, mt)"
  let ?end = "cleanup_orphaned_orders T master_orders live fc st"
  have final: "?end = foldl (close_orphan T ?lg) ?s1 post"
    by (simp add: cleanup_as_loop entries)
  have "(t, order, mt) \<in> set (orders_to_close master_orders live fc st)"
    by (simp add: entries)
  then have "mt \<notin> set (map ticket master_orders)"
    unfolding orders_to_close_def
    using orphans_by_comment_absent orphans_by_link_absent by fastforce
  then have absent: "mt \<notin> ticket ` set master_orders"
    by simp
  from close_orphan_success_entry_rule [OF success, of mt ?lg]
  have unlinked: "link_of mt ?lg (follower_orders ?s1) = None"
    and rule: "has_key mt (follower_orders ?s1) = linked_elsewhere mt ?lg (follower_orders ?s1)"
    by simp_all
  have own: "link_of mt ?lg (follower_orders ?end) = None"
    unfolding final using unlinked by (rule closing_loop_stays_unlinked)
  have "has_key mt (follower_orders ?end) = linked_elsewhere mt ?lg (follower_orders ?end)"
    unfolding final using rule by (rule closing_loop_keeps_entry_rule)
  also have "\<dots> = linked_elsewhere mt ?lg (follower_orders st)"
    by (simp add: cleanup_as_loop closing_loop_linked_elsewhere)
  finally have entry: "has_key mt (follower_orders ?end)
                         = linked_elsewhere mt ?lg (follower_orders st)" .
  have others: "\<forall>m l. l \<noteq> ?lg \<longrightarrow>
               link_of m l (follower_orders ?end) = link_of m l (follower_orders st)"
    by (simp add: cleanup_as_loop closing_loop_other_links)
  have mc: "manually_closed ?end = manually_closed st"
    by (simp add: cleanup_as_loop closing_loop_keeps_manually_closed)
  from absent own entry others mc show ?thesis by blast
qed

text \<open>On a terminal where only the first cancel of a ticket succeeds: the copy 500 of
  follower 2 is listed twice, the first cancel succeeds and the second fails; the link of
  follower 2 is removed, that of follower 3 and the entry of ticket 100 stay.\<close>

theorem successful_close_removes_own_link_witness:
  "orders_to_close [] [(500, demo_position 500 2 ''Copy:100'' 77)] demo_follower once_copier
     = [] @ (500, demo_position 500 2 ''Copy:100'' 77, 100)
          # [(500, demo_position 500 2 ''Copy:100'' 77, 100)]
   \<and> snd (fst (close_or_cancel once_terminal 500 (demo_position 500 2 ''Copy:100'' 77)
                 (world once_copier)))
   \<and> \<not> snd (fst (close_or_cancel once_terminal 500 (demo_position 500 2 ''Copy:100'' 77)
                   (2, [500])))
   \<and> link_of 100 2 (follower_orders (cleanup_orphaned_orders once_terminal []
        [(500, demo_position 500 2 ''Copy:100'' 77)] demo_follower once_copier)) = None
   \<and> has_key 100 (follower_orders (cleanup_orphaned_orders once_terminal []
        [(500, demo_position 500 2 ''Copy:100'' 77)] demo_follower once_copier))
   \<and> link_of 100 3 (follower_orders (cleanup_orphaned_orders once_terminal []
        [(500, demo_position 500 2 ''Copy:100'' 77)] demo_follower once_copier)) = Some 600
   \<and> manually_closed (cleanup_orphaned_orders once_terminal []
        [(500, demo_position 500 2 ''Copy:100'' 77)] demo_follower once_copier)
       = [(100, {4})]"
proof -
  let ?o = "demo_position 500 2 ''Copy:100'' 77"
  have entries: "orders_to_close [] [(500, ?o)] demo_follower once_copier
                   = [] @ (500, ?o, 100) # [(500, ?o, 100)]"
    by (simp add: orders_to_close_def model_defs python_defs demo_defs)
  have success: "snd (fst (close_or_cancel once_terminal 500 ?o
                             (world (foldl (close_orphan once_terminal (login demo_follower))
                                       once_copier []))))"
    by (simp add: close_or_cancel_def demo_defs)
  have first: "snd (fst (close_or_cancel once_terminal 500 ?o (world once_copier)))"
    by (simp add: close_or_cancel_def demo_defs)
  have again: "\<not> snd (fst (close_or_cancel once_terminal 500 ?o (2, [500])))"
    by (simp add: close_or_cancel_def demo_defs)
  have elsewhere: "linked_elsewhere 100 (login demo_follower) (follower_orders once_copier)"
    by (simp add: linked_elsewhere_def inner_of_def demo_defs)
  have l3: "link_of 100 3 (follower_orders once_copier) = Some 600"
    by (simp add: link_of_def demo_defs)
  have mc: "manually_closed once_copier = [(100, {4})]"
    by (simp add: demo_defs)
  have lg: "login demo_follower = 2"
    by (simp add: demo_defs)
  from successful_close_removes_own_link [OF entries success]
       entries first again elsewhere l3 mc lg
  show ?thesis by simp
qed

text \<open>The claim fails even when every call succeeds. Both followers are enabled, the
  master has closed ticket 100 and the cycle cancels both copies. Afterwards the links are
  gone, but the status table and the manual-close record still hold ticket 100. And after
  the pass of follower 2 alone, the link of follower 3 is still there.\<close>

theorem cleanup_purges_links_only_counterexample:
  "follower_orders (run_copy_cycle two_follower_terminal two_follower_config two_follower_copier) = []
   \<and> order_sync_status (run_copy_cycle two_follower_terminal two_follower_config two_follower_copier)
       = [(100, [(2, ''synced''), (3, ''synced'')])]
   \<and> manually_closed (run_copy_cycle two_follower_terminal two_follower_config two_follower_copier)
       = [(100, {4})]
   \<and> follower_orders (sync_orders_to_follower two_follower_terminal demo_follower []
                        two_follower_copier) = [(100, [(3, 600)])]"
  by (simp add: model_defs python_defs demo_defs)


section \<open>The calls a step adds\<close>

lemma adds_only_refl: "actions st' = actions st \<Longrightarrow> adds_only P st st'"
  by (simp add: adds_only_def)

lemma adds_only_one: "actions st' = actions st @ [a] \<Longrightarrow> P a \<Longrightarrow> adds_only P st st'"
  by (simp add: adds_only_def)

lemma adds_only_trans:
  assumes "adds_only P st st'" and "adds_only P st' st''"
  shows "adds_only P st st''"
proof -
  obtain n1 where 1: "actions st' = actions st @ n1" "\<forall>a \<in> set n1. P a"
    using assms(1) by (auto simp: adds_only_def)
  obtain n2 where 2: "actions st'' = actions st' @ n2" "\<forall>a \<in> set n2. P a"
    using assms(2) by (auto simp: adds_only_def)
  have "actions st'' = actions st @ (n1 @ n2)" using 1 2 by simp
  moreover have "\<forall>a \<in> set (n1 @ n2). P a" using 1 2 by auto
  ultimately show ?thesis unfolding adds_only_def by blast
qed

lemma adds_only_mono:
  assumes "adds_only P st st'" and "\<And>a. P a \<Longrightarrow> Q a"
  shows "adds_only Q st st'"
  using assms unfolding adds_only_def by blast

lemma adds_only_foldl:
  assumes step: "\<And>s x. I s \<Longrightarrow> x \<in> set xs \<Longrightarrow> I (f s x) \<and> adds_only P s (f s x)"
      and "I st"
  shows "I (foldl f st xs) \<and> adds_only P st (foldl f st xs)"
  using assms
proof (induction xs arbitrary: st)
  case Nil
  then show ?case by (simp add: adds_only_refl)
next
  case (Cons x xs)
  have 1: "I (f st x) \<and> adds_only P st (f st x)"
    using Cons.prems by simp
  have "I (foldl f (f st x) xs) \<and> adds_only P (f st x) (foldl f (f st x) xs)"
    using Cons.prems 1 by (intro Cons.IH) simp_all
  with 1 show ?case
    using adds_only_trans by fastforce
qed

lemma copy_new_order_adds:
  "adds_only (\<lambda>a. \<exists>req. a = Create (login fc) (ticket mo) req \<and> r_magic req = magic_number fc)
     st (copy_new_order T mo fc st)"
proof (cases "get_symbol_info T (map_symbol (symbol mo) fc) (login fc) (world st)")
  case (Pair info w1)
  then show ?thesis
    by (cases info) (simp_all add: adds_only_def copy_new_order_actions)
qed

lemma check_order_modifications_adds:
  "adds_only (\<lambda>a. \<exists>p. a = Modify (login fc) (o_ticket fo) p)
     st (check_order_modifications T mo fo fc st)"
  by (simp add: adds_only_def check_order_modifications_actions)

lemma copy_new_order_manually_closed:
  "manually_closed (copy_new_order T mo fc st) = manually_closed st"
  by (simp add: copy_new_order_def Let_def split: prod.splits option.splits)

lemma check_order_modifications_manually_closed:
  "manually_closed (check_order_modifications T mo fo fc st) = manually_closed st"
  by (simp add: check_order_modifications_def Let_def split: prod.splits)

lemma mark_manually_closed_actions:
  "actions (mark_manually_closed mt lg st) = actions st"
  by (simp add: mark_manually_closed_def Let_def)

lemma mark_manually_closed_keeps:
  assumes "is_manually_closed m l (manually_closed st)"
  shows "is_manually_closed m l (manually_closed (mark_manually_closed mt lg st))"
proof -
  have "is_manually_closed m l
          (AList.update mt (insert lg (logins_of mt
              (if has_key mt (manually_closed st) then manually_closed st
               else AList.update mt {} (manually_closed st))))
            (if has_key mt (manually_closed st) then manually_closed st
             else AList.update mt {} (manually_closed st)))"
    using assms
    by (auto simp: is_manually_closed_def logins_of_def has_key_def update_conv'
          split: option.splits)
  then show ?thesis
    by (simp add: mark_manually_closed_def Let_def)
qed

lemma mark_manually_closed_records:
  "is_manually_closed mt lg (manually_closed (mark_manually_closed mt lg st))"
  by (simp add: mark_manually_closed_def Let_def is_manually_closed_def update_conv')

text \<open>The calls of \<^verbatim>\<open>_process_master_order\<close>: at most a create for this pair, sent only when
  the pair is not in the manual-close record, or a modify of the live order that the link
  names.\<close>

lemma process_master_order_adds:
  "adds_only (\<lambda>a. (\<exists>req. a = Create (login fc) (ticket mo) req \<and> r_magic req = magic_number fc
                        \<and> \<not> is_manually_closed (ticket mo) (login fc) (manually_closed st))
                 \<or> (\<exists>fo p. a = Modify (login fc) (o_ticket fo) p \<and> fo \<in> snd ` set live))
     st (process_master_order T mo fc live st)"
proof (cases "link_of (ticket mo) (login fc) (follower_orders st)")
  case None
  show ?thesis
  proof (cases "is_manually_closed (ticket mo) (login fc) (manually_closed st)")
    case True
    with None show ?thesis
      by (simp add: process_master_order_def adds_only_refl)
  next
    case False
    have "adds_only (\<lambda>a. \<exists>req. a = Create (login fc) (ticket mo) req \<and> r_magic req = magic_number fc)
            st (copy_new_order T mo fc st)"
      by (rule copy_new_order_adds)
    then have "adds_only (\<lambda>a. (\<exists>req. a = Create (login fc) (ticket mo) req \<and> r_magic req = magic_number fc
                        \<and> \<not> is_manually_closed (ticket mo) (login fc) (manually_closed st))
                 \<or> (\<exists>fo p. a = Modify (login fc) (o_ticket fo) p \<and> fo \<in> snd ` set live))
            st (copy_new_order T mo fc st)"
      by (rule adds_only_mono) (use False in blast)
    with None False show ?thesis
      by (simp add: process_master_order_def)
  qed
next
  case (Some ft)
  show ?thesis
  proof (cases "map_of live ft")
    case None
    with Some show ?thesis
      by (simp add: process_master_order_def adds_only_refl mark_manually_closed_actions)
  next
    case fo: (Some fo)
    have mem: "fo \<in> snd ` set live"
      using fo by (metis image_eqI map_of_SomeD snd_conv)
    have "adds_only (\<lambda>a. \<exists>p. a = Modify (login fc) (o_ticket fo) p)
            st (check_order_modifications T mo fo fc st)"
      by (rule check_order_modifications_adds)
    then have m: "adds_only (\<lambda>a. (\<exists>req. a = Create (login fc) (ticket mo) req \<and> r_magic req = magic_number fc
                        \<and> \<not> is_manually_closed (ticket mo) (login fc) (manually_closed st))
                 \<or> (\<exists>fo p. a = Modify (login fc) (o_ticket fo) p \<and> fo \<in> snd ` set live))
            st (check_order_modifications T mo fo fc st)"
      by (rule adds_only_mono) (use mem in blast)
    show ?thesis
    proof (cases "has_master_order_changed (last_master_state st) mo")
      case True
      with Some fo m show ?thesis
        by (simp add: process_master_order_def Let_def adds_only_def)
    next
      case False
      with Some fo show ?thesis
        by (simp add: process_master_order_def Let_def adds_only_def)
    qed
  qed
qed

lemma process_master_order_keeps:
  assumes "is_manually_closed m l (manually_closed st)"
  shows "is_manually_closed m l (manually_closed (process_master_order T mo fc live st))"
  using assms
  by (simp add: process_master_order_def Let_def copy_new_order_manually_closed
        check_order_modifications_manually_closed mark_manually_closed_keeps
      split: option.splits)

lemma close_orphan_adds:
  "adds_only (\<lambda>a. a = Close lg t \<or> a = Cancel lg t) st (close_orphan T lg st (t, order, mt))"
proof -
  obtain is_position success w2
    where c: "close_or_cancel T t order (world st) = ((is_position, success), w2)"
    by (metis surj_pair)
  show ?thesis
    by (rule adds_only_one [where a = "if is_position then Close lg t else Cancel lg t"])
       (simp_all add: close_orphan_unfold [OF c])
qed

lemma orphans_by_link_live:
  assumes "(t, order, mt) \<in> set (orphans_by_link lg master_tickets live fos)"
  shows "map_of live t = Some order"
proof -
  let ?found = "\<lambda>(mt, followers).
                    if mt \<notin> set master_tickets then
                      (case map_of followers lg of
                         None \<Rightarrow> []
                       | Some follower_ticket \<Rightarrow>
                           (case map_of live follower_ticket of
                              None \<Rightarrow> []
                            | Some order \<Rightarrow> [(follower_ticket, order, mt)]))
                    else []"
  from assms have "\<exists>e \<in> set fos. (t, order, mt) \<in> set (?found e)"
    unfolding orphans_by_link_def set_concat set_map by blast
  then obtain e where "(t, order, mt) \<in> set (?found e)"
    by blast
  moreover obtain m followers where "e = (m, followers)"
    by (cases e)
  ultimately have "(t, order, mt) \<in> set (
                    if m \<notin> set master_tickets then
                      (case map_of followers lg of
                         None \<Rightarrow> []
                       | Some follower_ticket \<Rightarrow>
                           (case map_of live follower_ticket of
                              None \<Rightarrow> []
                            | Some order \<Rightarrow> [(follower_ticket, order, m)]))
                    else [])"
    by (simp only: case_prod_conv)
  then show ?thesis
    by (cases "m \<in> set master_tickets"; cases "map_of followers lg")
       (auto split: option.splits)
qed

lemma orphans_by_comment_live:
  assumes "(t, order, mt) \<in> set (orphans_by_comment mg master_tickets live)"
  shows "(t, order) \<in> set live"
proof -
  let ?found = "\<lambda>(t, order).
                    if o_magic order \<noteq> mg then []
                    else (case decode_master_ticket order of
                            None \<Rightarrow> []
                          | Some mt \<Rightarrow> if mt \<notin> set master_tickets then [(t, order, mt)] else [])"
  from assms have "\<exists>e \<in> set live. (t, order, mt) \<in> set (?found e)"
    unfolding orphans_by_comment_def set_concat set_map by blast
  then obtain e where e: "e \<in> set live" and "(t, order, mt) \<in> set (?found e)"
    by blast
  moreover obtain t' order' where "e = (t', order')"
    by (cases e)
  ultimately have "(t', order') \<in> set live"
     and "(t, order, mt) \<in> set (if o_magic order' \<noteq> mg then []
                    else (case decode_master_ticket order' of
                            None \<Rightarrow> []
                          | Some mt \<Rightarrow> if mt \<notin> set master_tickets then [(t', order', mt)] else []))"
    by (simp_all only: case_prod_conv)
  then show ?thesis
    by (cases "o_magic order' = mg"; cases "decode_master_ticket order'")
       (auto split: if_splits)
qed

lemma orders_to_close_live:
  assumes "(t, order, mt) \<in> set (orphans_by_comment mg master_tickets live
                                    @ orphans_by_link lg master_tickets live fos)"
  shows "t \<in> fst ` set live"
proof -
  have "t \<in> fst ` set live" if "(t, order, mt) \<in> set (orphans_by_comment mg master_tickets live)"
    using orphans_by_comment_live [OF that] by (metis fst_conv image_eqI)
  moreover
  have "t \<in> fst ` set live" if "(t, order, mt) \<in> set (orphans_by_link lg master_tickets live fos)"
    using orphans_by_link_live [OF that] by (metis map_of_eq_None_iff option.distinct(1))
  ultimately show ?thesis using assms by auto
qed

text \<open>The calls of \<^verbatim>\<open>_cleanup_orphaned_orders\<close>: closes and cancels of live tickets.\<close>

lemma cleanup_adds:
  "adds_only (\<lambda>a. \<exists>t \<in> fst ` set live. a = Close (login fc) t \<or> a = Cancel (login fc) t)
     st (cleanup_orphaned_orders T master_orders live fc st)"
proof -
  let ?entries = "orphans_by_comment (magic_number fc) (map ticket master_orders) live
                  @ orphans_by_link (login fc) (map ticket master_orders) live (follower_orders st)"
  let ?P = "\<lambda>a. \<exists>t \<in> fst ` set live. a = Close (login fc) t \<or> a = Cancel (login fc) t"
  have "True \<and> adds_only ?P s (close_orphan T (login fc) s e)" if "e \<in> set ?entries" for s e
  proof -
    obtain t order mt where e: "e = (t, order, mt)" by (cases e)
    have "t \<in> fst ` set live"
      using that unfolding e by (rule orders_to_close_live)
    then have "adds_only ?P s (close_orphan T (login fc) s (t, order, mt))"
      by (intro adds_only_mono [OF close_orphan_adds]) blast
    then show ?thesis by (simp add: e)
  qed
  then have "True \<and> adds_only ?P st (foldl (close_orphan T (login fc)) st ?entries)"
    by (intro adds_only_foldl [where I = "\<lambda>s. True"]) simp_all
  then show ?thesis
    by (simp add: cleanup_orphaned_orders_def Let_def)
qed

lemma cleanup_manually_closed:
  "manually_closed (cleanup_orphaned_orders T master_orders live fc st) = manually_closed st"
  by (simp add: cleanup_orphaned_orders_def Let_def closing_loop_keeps_manually_closed)

lemma adds_only_world [simp]: "adds_only P (st\<lparr>world := w\<rparr>) st' = adds_only P st st'"
  by (simp add: adds_only_def)


section \<open>The manual-close record is sticky\<close>

lemma process_master_order_sticky:
  assumes "is_manually_closed mt lg (manually_closed st)"
  shows "is_manually_closed mt lg (manually_closed (process_master_order T mo fc live st))
         \<and> adds_only (\<lambda>a. \<forall>req. a \<noteq> Create lg mt req) st (process_master_order T mo fc live st)"
proof -
  have "adds_only (\<lambda>a. \<forall>req. a \<noteq> Create lg mt req) st (process_master_order T mo fc live st)"
    by (rule adds_only_mono [OF process_master_order_adds]) (use assms in auto)
  with process_master_order_keeps [OF assms] show ?thesis by simp
qed

lemma cleanup_sticky:
  assumes "is_manually_closed mt lg (manually_closed st)"
  shows "is_manually_closed mt lg (manually_closed (cleanup_orphaned_orders T mos live fc st))
         \<and> adds_only (\<lambda>a. \<forall>req. a \<noteq> Create lg mt req) st (cleanup_orphaned_orders T mos live fc st)"
proof -
  have "adds_only (\<lambda>a. \<forall>req. a \<noteq> Create lg mt req) st (cleanup_orphaned_orders T mos live fc st)"
    by (rule adds_only_mono [OF cleanup_adds]) auto
  with assms show ?thesis by (simp add: cleanup_manually_closed)
qed

lemma sync_orders_to_follower_sticky:
  assumes "is_manually_closed mt lg (manually_closed st)"
  shows "is_manually_closed mt lg (manually_closed (sync_orders_to_follower T fc mos st))
         \<and> adds_only (\<lambda>a. \<forall>req. a \<noteq> Create lg mt req) st (sync_orders_to_follower T fc mos st)"
proof -
  let ?I = "\<lambda>s. is_manually_closed mt lg (manually_closed s)"
  let ?P = "\<lambda>a. \<forall>req. a \<noteq> Create lg mt req"
  obtain ok w1 where c: "connect_account T (login fc) (world st) = (ok, w1)"
    by (metis surj_pair)
  obtain r2 w2 where o: "orders_get T w1 = (r2, w2)"
    by (metis surj_pair)
  obtain r3 w3 where p: "positions_get T w2 = (r3, w3)"
    by (metis surj_pair)
  show ?thesis
  proof (cases "ok \<and> isl r2 = False \<and> isl r3 = False")
    case False
    with c o p assms show ?thesis
      by (cases r2; cases r3; cases ok)
         (simp_all add: sync_orders_to_follower_def adds_only_refl)
  next
    case True
    then obtain pending positions where r: "ok" "r2 = Inr pending" "r3 = Inr positions"
      by (cases r2; cases r3) auto
    let ?live = "track_own (magic_number fc) (track_own (magic_number fc) [] pending) positions"
    let ?st0 = "st\<lparr>world := w3\<rparr>"
    let ?st1 = "foldl (\<lambda>s master_order. process_master_order T master_order fc ?live s) ?st0 mos"
    have i0: "?I ?st0" using assms by simp
    have 1: "?I ?st1 \<and> adds_only ?P ?st0 ?st1"
      by (rule adds_only_foldl [where I = ?I, OF _ i0]) (rule process_master_order_sticky)
    then have 2: "?I (cleanup_orphaned_orders T mos ?live fc ?st1)
                  \<and> adds_only ?P ?st1 (cleanup_orphaned_orders T mos ?live fc ?st1)"
      by (intro cleanup_sticky) simp
    have "sync_orders_to_follower T fc mos st = cleanup_orphaned_orders T mos ?live fc ?st1"
      using c o p r by (simp add: sync_orders_to_follower_def Let_def)
    with 1 2 show ?thesis
      using adds_only_trans [of ?P ?st0 ?st1] by auto
  qed
qed

lemma sync_all_sticky:
  assumes "is_manually_closed mt lg (manually_closed st)"
  shows "is_manually_closed mt lg (manually_closed (sync_all T fcs mos st))
         \<and> adds_only (\<lambda>a. \<forall>req. a \<noteq> Create lg mt req) st (sync_all T fcs mos st)"
  unfolding sync_all_def
  by (rule adds_only_foldl [where I = "\<lambda>s. is_manually_closed mt lg (manually_closed s)", OF _ assms])
     (simp add: sync_orders_to_follower_sticky adds_only_refl)

lemma run_copy_cycle_sticky:
  assumes "is_manually_closed mt lg (manually_closed st)"
  shows "is_manually_closed mt lg (manually_closed (run_copy_cycle T cfg st))
         \<and> adds_only (\<lambda>a. \<forall>req. a \<noteq> Create lg mt req) st (run_copy_cycle T cfg st)"
proof -
  obtain mos w1 where g: "get_master_orders T (master_account cfg) (world st) = (mos, w1)"
    by (metis surj_pair)
  let ?st1 = "st\<lparr>cycle_count := cycle_count st + 1, world := w1\<rparr>"
  have i1: "is_manually_closed mt lg (manually_closed ?st1)" using assms by simp
  have a1: "adds_only P ?st1 s = adds_only P st s" for P and s :: "'a copier"
    by (simp add: adds_only_def)
  from sync_all_sticky [OF i1, of T "follower_accounts cfg" mos]
       sync_all_sticky [OF i1, of T "follower_accounts cfg" "[]"]
  show ?thesis
    using assms g by (simp add: run_copy_cycle_def Let_def a1 adds_only_def)
qed

text \<open>
  Claim C1. Once a pair (master ticket, follower) is in the manual-close record, it stays
  there through any number of further cycles, whatever the terminal answers (so also while
  the master ticket is still in every snapshot), and none of the calls these cycles add to
  the trace is a create for that pair.
\<close>

theorem manual_close_is_sticky:
  assumes "is_manually_closed mt lg (manually_closed st)"
  shows "is_manually_closed mt lg (manually_closed (run_cycles T cfg n st))
         \<and> adds_only (\<lambda>a. \<forall>req. a \<noteq> Create lg mt req) st (run_cycles T cfg n st)"
  using assms
proof (induction n arbitrary: st)
  case 0
  then show ?case by (simp add: adds_only_refl)
next
  case (Suc n)
  from run_copy_cycle_sticky [OF Suc.prems, of T cfg]
  have 1: "is_manually_closed mt lg (manually_closed (run_copy_cycle T cfg st))"
    and 2: "adds_only (\<lambda>a. \<forall>req. a \<noteq> Create lg mt req) st (run_copy_cycle T cfg st)"
    by simp_all
  from Suc.IH [OF 1] 2 show ?case
    using adds_only_trans by fastforce
qed

theorem manual_close_is_sticky_witness:
  "is_manually_closed 100 2 (manually_closed closed_copier)
   \<and> fst (get_master_orders demo_terminal (master_account demo_config) 0) = [demo_order]
   \<and> is_manually_closed 100 2 (manually_closed (run_cycles demo_terminal demo_config 2 closed_copier))
   \<and> adds_only (\<lambda>a. \<forall>req. a \<noteq> Create 2 100 req) closed_copier
        (run_cycles demo_terminal demo_config 2 closed_copier)"
proof -
  have h: "is_manually_closed 100 2 (manually_closed closed_copier)"
    by (simp add: is_manually_closed_def closed_copier_def)
  from manual_close_is_sticky [OF h, of demo_terminal demo_config 2] h demo_master_snapshot [of 0]
  show ?thesis by simp
qed


section \<open>Only orders with the magic number\<close>

lemma set_update_subset: "set (AList.update k v al) \<subseteq> insert (k, v) (set al)"
  by (induction al) auto

lemma track_own_entries:
  assumes "(t, order) \<in> set (track_own mg d orders)"
  shows "(t, order) \<in> set d \<or> (order \<in> set orders \<and> o_magic order = mg \<and> o_ticket order = t)"
  using assms unfolding track_own_def
proof (induction orders arbitrary: d)
  case Nil
  then show ?case by simp
next
  case (Cons x xs)
  let ?d = "if o_magic x = mg then AList.update (o_ticket x) x d else d"
  from Cons.prems have "(t, order) \<in> set (foldl (\<lambda>d order. if o_magic order = mg
                            then AList.update (o_ticket order) order d else d) ?d xs)"
    by simp
  from Cons.IH [OF this]
  have "(t, order) \<in> set ?d \<or> (order \<in> set xs \<and> o_magic order = mg \<and> o_ticket order = t)" .
  moreover have "(t, order) \<in> set d \<or> (order = x \<and> o_magic order = mg \<and> o_ticket order = t)"
    if "(t, order) \<in> set ?d"
    using that set_update_subset [of "o_ticket x" x d] by (auto split: if_splits)
  ultimately show ?case by auto
qed

lemma live_orders_tagged:
  assumes "(t, order) \<in> set (track_own mg (track_own mg [] pending) positions)"
  shows "order \<in> set (pending @ positions) \<and> o_magic order = mg \<and> o_ticket order = t"
  using track_own_entries [OF assms] track_own_entries [of t order mg "[]" pending] by auto

lemma tagged_ticketI:
  "order \<in> set snapshot \<Longrightarrow> o_magic order = mg \<Longrightarrow> tagged_ticket mg snapshot (o_ticket order)"
  by (auto simp: tagged_ticket_def list_ex_iff)

lemma touches_own_spares:
  assumes "touches_own mg snapshot a" and "distinct (map o_ticket snapshot)"
  shows "spares_foreign mg snapshot a"
proof -
  have "o_magic order = mg" if "order \<in> set snapshot" and "tagged_ticket mg snapshot (o_ticket order)"
    for order
  proof -
    from that(2) obtain o' where o': "o' \<in> set snapshot" "o_ticket o' = o_ticket order" "o_magic o' = mg"
      by (auto simp: tagged_ticket_def list_ex_iff)
    with that(1) assms(2) have "o' = order"
      by (meson distinct_map inj_onD)
    with o' show ?thesis by simp
  qed
  with assms(1) show ?thesis
    by (cases a) (auto simp: spares_foreign_def touches_own_def action_ticket_def list_all_iff)
qed

lemma sync_orders_to_follower_touches_own:
  "adds_only (touches_own (magic_number fc) (fetched_orders T (login fc) (world st)))
     st (sync_orders_to_follower T fc mos st)"
proof -
  let ?mg = "magic_number fc"
  obtain ok w1 where c: "connect_account T (login fc) (world st) = (ok, w1)"
    by (metis surj_pair)
  obtain r2 w2 where o: "orders_get T w1 = (r2, w2)"
    by (metis surj_pair)
  obtain r3 w3 where p: "positions_get T w2 = (r3, w3)"
    by (metis surj_pair)
  show ?thesis
  proof (cases "ok \<and> isl r2 = False \<and> isl r3 = False")
    case False
    with c o p show ?thesis
      by (cases r2; cases r3; cases ok)
         (simp_all add: sync_orders_to_follower_def adds_only_refl)
  next
    case True
    then obtain pending positions where r: "ok" "r2 = Inr pending" "r3 = Inr positions"
      by (cases r2; cases r3) auto
    let ?snap = "pending @ positions"
    let ?live = "track_own ?mg (track_own ?mg [] pending) positions"
    let ?P = "touches_own ?mg ?snap"
    let ?st0 = "st\<lparr>world := w3\<rparr>"
    let ?st1 = "foldl (\<lambda>s master_order. process_master_order T master_order fc ?live s) ?st0 mos"
    have snap: "fetched_orders T (login fc) (world st) = ?snap"
      using c o p r by (simp add: fetched_orders_def)
    have value_tagged: "tagged_ticket ?mg ?snap (o_ticket fo)" if "(t, fo) \<in> set ?live" for t fo
      using live_orders_tagged [OF that] by (intro tagged_ticketI) simp_all
    have key_tagged: "tagged_ticket ?mg ?snap t" if "(t, fo) \<in> set ?live" for t fo
      using live_orders_tagged [OF that] tagged_ticketI [of fo ?snap ?mg] by auto
    have step: "True \<and> adds_only ?P s (process_master_order T mo fc ?live s)" for s mo
      by (auto intro!: adds_only_mono [OF process_master_order_adds]
               simp: touches_own_def value_tagged)
    have 1: "True \<and> adds_only ?P ?st0 ?st1"
      by (rule adds_only_foldl [where I = "\<lambda>s. True"]) (simp_all add: step)
    have 2: "adds_only ?P ?st1 (cleanup_orphaned_orders T mos ?live fc ?st1)"
      by (auto intro!: adds_only_mono [OF cleanup_adds] simp: touches_own_def key_tagged)
    have "sync_orders_to_follower T fc mos st = cleanup_orphaned_orders T mos ?live fc ?st1"
      using c o p r by (simp add: sync_orders_to_follower_def Let_def)
    with 1 2 snap show ?thesis
      using adds_only_trans [of ?P ?st0 ?st1] by auto
  qed
qed

text \<open>
  Claim C9. In a synchronisation pass the dictionary of the follower's live orders holds
  only orders of the terminal's snapshot that carry the follower's magic number, each
  under its own ticket. Every call the pass adds stays within them: a create carries the
  magic number, and a modify, close or cancel acts on the ticket of a tagged order of the
  snapshot; so, tickets being unique on the account, no order without the magic number is
  the target of any call.
\<close>

theorem sync_touches_tagged_orders_only:
  "(\<forall>(t, order) \<in> set (track_own (magic_number fc) (track_own (magic_number fc) [] pending)
                          positions).
      order \<in> set (pending @ positions) \<and> o_magic order = magic_number fc \<and> o_ticket order = t)
   \<and> adds_only (touches_own (magic_number fc) (fetched_orders T (login fc) (world st)))
        st (sync_orders_to_follower T fc mos st)
   \<and> (distinct (map o_ticket (fetched_orders T (login fc) (world st))) \<longrightarrow>
        adds_only (spares_foreign (magic_number fc) (fetched_orders T (login fc) (world st)))
          st (sync_orders_to_follower T fc mos st))"
proof (intro conjI impI)
  show "\<forall>(t, order) \<in> set (track_own (magic_number fc) (track_own (magic_number fc) [] pending)
                          positions).
      order \<in> set (pending @ positions) \<and> o_magic order = magic_number fc \<and> o_ticket order = t"
    using live_orders_tagged by blast
next
  show "adds_only (touches_own (magic_number fc) (fetched_orders T (login fc) (world st)))
        st (sync_orders_to_follower T fc mos st)"
    by (rule sync_orders_to_follower_touches_own)
next
  assume "distinct (map o_ticket (fetched_orders T (login fc) (world st)))"
  then show "adds_only (spares_foreign (magic_number fc) (fetched_orders T (login fc) (world st)))
          st (sync_orders_to_follower T fc mos st)"
    by (intro adds_only_mono [OF sync_orders_to_follower_touches_own]) (rule touches_own_spares)
qed

theorem sync_touches_tagged_orders_only_witness:
  "fetched_orders mixed_terminal (login demo_follower) (world linked_copier)
     = [demo_position 500 2 ''Copy:100'' 77, demo_position 700 2 ''Copy:100'' 0]
   \<and> track_own 77 (track_own 77 [] [demo_position 500 2 ''Copy:100'' 77,
                                     demo_position 700 2 ''Copy:100'' 0]) []
       = [(500, demo_position 500 2 ''Copy:100'' 77)]
   \<and> actions (sync_orders_to_follower mixed_terminal demo_follower [] linked_copier)
       = [Cancel 2 500, Cancel 2 500]
   \<and> adds_only (spares_foreign 77 [demo_position 500 2 ''Copy:100'' 77,
                                     demo_position 700 2 ''Copy:100'' 0])
        linked_copier (sync_orders_to_follower mixed_terminal demo_follower [] linked_copier)"
proof -
  have snap: "fetched_orders mixed_terminal (login demo_follower) (world linked_copier)
     = [demo_position 500 2 ''Copy:100'' 77, demo_position 700 2 ''Copy:100'' 0]"
    by (simp add: fetched_orders_def demo_defs)
  have live: "track_own 77 (track_own 77 [] [demo_position 500 2 ''Copy:100'' 77,
                                     demo_position 700 2 ''Copy:100'' 0]) []
       = [(500, demo_position 500 2 ''Copy:100'' 77)]"
    by (simp add: track_own_def demo_defs)
  have acts: "actions (sync_orders_to_follower mixed_terminal demo_follower [] linked_copier)
       = [Cancel 2 500, Cancel 2 500]"
    by (simp add: model_defs python_defs demo_defs)
  have d: "distinct (map o_ticket [demo_position 500 2 ''Copy:100'' 77,
                                    demo_position 700 2 ''Copy:100'' 0])"
    by (simp add: demo_defs)
  have mg: "magic_number demo_follower = 77"
    by (simp add: demo_defs)
  from sync_touches_tagged_orders_only [of demo_follower "[]" "[]" mixed_terminal linked_copier "[]"]
       snap live acts d mg
  show ?thesis by simp
qed


section \<open>A failed master fetch\<close>

lemma failed_fetch_empty:
  assumes "master_fetch_fails T master w"
  shows "fst (get_master_orders T master w) = []"
proof -
  obtain ok w1 where c: "connect_account T master w = (ok, w1)"
    by (metis surj_pair)
  obtain r2 w2 where o: "orders_get T w1 = (r2, w2)"
    by (metis surj_pair)
  obtain r3 w3 where p: "positions_get T w2 = (r3, w3)"
    by (metis surj_pair)
  show ?thesis
    using assms c o p
    by (cases ok; cases r2; cases r3)
       (auto simp: master_fetch_fails_def get_master_orders_def split: sum.splits)
qed

lemma detect_nothing_left:
  "detect_master_changes lms [] mos =
     \<lparr>has_changes = (lms \<noteq> []),
      summary = (if lms = [] then [''no changes'']
                 else [str_nat (length lms) @ '' removed orders''])\<rparr>"
  by (simp add: detect_master_changes_def Let_def)

lemma track_own_keeps_keys:
  "t \<in> fst ` set d \<Longrightarrow> t \<in> fst ` set (track_own mg d orders)"
  unfolding track_own_def
  by (induction orders arbitrary: d) (simp_all add: dom_update)

lemma track_own_has_key:
  assumes "order \<in> set orders" and "o_magic order = mg"
  shows "o_ticket order \<in> fst ` set (track_own mg d orders)"
  using assms(1)
proof (induction orders arbitrary: d)
  case Nil
  then show ?case by simp
next
  case (Cons x xs)
  show ?case
  proof (cases "order = x")
    case True
    have "o_ticket order \<in> fst ` set (AList.update (o_ticket order) order d)"
      by (simp add: dom_update)
    from track_own_keeps_keys [OF this, of mg xs] True assms(2) show ?thesis
      by (simp add: track_own_def)
  next
    case False
    with Cons.prems have "order \<in> set xs" by simp
    from Cons.IH [OF this] show ?thesis
      by (simp add: track_own_def)
  qed
qed

lemma recording_connect:
  "connect_account (recording T) l w
     = (fst (connect_account T l (fst w)), (snd (connect_account T l (fst w)), snd w))"
  by (simp add: recording_def split: prod.splits)

lemma recording_orders_get:
  "orders_get (recording T) w
     = (fst (orders_get T (fst w)), (snd (orders_get T (fst w)), snd w))"
  by (simp add: recording_def split: prod.splits)

lemma recording_positions_get:
  "positions_get (recording T) w
     = (fst (positions_get T (fst w)), (snd (positions_get T (fst w)), snd w))"
  by (simp add: recording_def split: prod.splits)

lemma recording_positions_get_ticket:
  "positions_get_ticket (recording T) t w
     = (fst (positions_get_ticket T t (fst w)), (snd (positions_get_ticket T t (fst w)), snd w))"
  by (simp add: recording_def split: prod.splits)

lemma recording_close_position:
  "close_position (recording T) t w
     = (fst (close_position T t (fst w)),
        (snd (close_position T t (fst w)), snd w @ [CloseCall t]))"
  by (simp add: recording_def split: prod.splits)

lemma recording_cancel_order:
  "cancel_order (recording T) t w
     = (fst (cancel_order T t (fst w)),
        (snd (cancel_order T t (fst w)), snd w @ [CancelCall t]))"
  by (simp add: recording_def split: prod.splits)

text \<open>Fetching the master snapshot makes no trade call.\<close>

lemma get_master_orders_calls:
  "snd (snd (get_master_orders (recording T) master w)) = snd w"
proof -
  obtain ok w1 where c: "connect_account T master (fst w) = (ok, w1)"
    by (metis surj_pair)
  obtain r2 w2 where o: "orders_get T w1 = (r2, w2)"
    by (metis surj_pair)
  obtain r3 w3 where p: "positions_get T w2 = (r3, w3)"
    by (metis surj_pair)
  show ?thesis
    using c o p
    by (cases ok; cases r2; cases r3)
       (simp_all add: get_master_orders_def recording_connect recording_orders_get
          recording_positions_get split: sum.splits)
qed

text \<open>One round of the closing loop makes exactly one trade call: the close or the cancel
  of the round's ticket.\<close>

lemma close_or_cancel_calls:
  "snd (snd (close_or_cancel (recording T) t order w)) = snd w @ [CloseCall t]
   \<or> snd (snd (close_or_cancel (recording T) t order w)) = snd w @ [CancelCall t]"
  by (simp add: close_or_cancel_def recording_positions_get_ticket recording_close_position
        recording_cancel_order split: option.splits)

lemma close_orphan_calls:
  "calls (close_orphan (recording T) lg s (t, order, mt)) = calls s @ [CloseCall t]
   \<or> calls (close_orphan (recording T) lg s (t, order, mt)) = calls s @ [CancelCall t]"
proof -
  obtain is_position success w2
    where c: "close_or_cancel (recording T) t order (world s) = ((is_position, success), w2)"
    by (metis surj_pair)
  from close_or_cancel_calls [of T t order "world s"]
  have "snd w2 = snd (world s) @ [CloseCall t] \<or> snd w2 = snd (world s) @ [CancelCall t]"
    by (simp add: c)
  then show ?thesis
    by (simp add: close_orphan_unfold [OF c] calls_def)
qed

lemma close_orphan_keeps_calls:
  assumes "c \<in> set (calls s)"
  shows "c \<in> set (calls (close_orphan (recording T) lg s e))"
proof -
  obtain t order mt where e: "e = (t, order, mt)" by (cases e)
  from close_orphan_calls [of T lg s t order mt] assms show ?thesis
    unfolding e by auto
qed

lemma closing_loop_keeps_calls:
  assumes "c \<in> set (calls s)"
  shows "c \<in> set (calls (foldl (close_orphan (recording T) lg) s entries))"
  using assms
proof (induction entries arbitrary: s)
  case Nil
  then show ?case by simp
next
  case (Cons e es)
  from Cons.IH [OF close_orphan_keeps_calls [OF Cons.prems]] show ?case by simp
qed

lemma closing_loop_calls:
  assumes "(t, order, mt) \<in> set entries"
  shows "CloseCall t \<in> set (calls (foldl (close_orphan (recording T) lg) s entries))
         \<or> CancelCall t \<in> set (calls (foldl (close_orphan (recording T) lg) s entries))"
  using assms
proof (induction entries arbitrary: s)
  case Nil
  then show ?case by simp
next
  case (Cons e es)
  show ?case
  proof (cases "e = (t, order, mt)")
    case True
    let ?s1 = "close_orphan (recording T) lg s (t, order, mt)"
    from close_orphan_calls [of T lg s t order mt]
    have "CloseCall t \<in> set (calls ?s1) \<or> CancelCall t \<in> set (calls ?s1)"
      by auto
    then have "CloseCall t \<in> set (calls (foldl (close_orphan (recording T) lg) ?s1 es))
               \<or> CancelCall t \<in> set (calls (foldl (close_orphan (recording T) lg) ?s1 es))"
      using closing_loop_keeps_calls by blast
    then show ?thesis by (simp add: True)
  next
    case False
    with Cons.prems have "(t, order, mt) \<in> set es" by simp
    from Cons.IH [OF this] show ?thesis by simp
  qed
qed

text \<open>A pass over the empty master snapshot is the closing loop alone, and every linked
  order of the follower that the terminal shows with the follower's magic number is among
  its entries.\<close>

lemma empty_pass_closing_loop:
  assumes linked: "link_of mt (login fc) (follower_orders s) = Some ft"
      and shown: "tagged_ticket (magic_number fc) (fetched_orders T (login fc) (world s)) ft"
  shows "\<exists>w3 entries order.
           sync_orders_to_follower T fc [] s
             = foldl (close_orphan T (login fc)) (s\<lparr>world := w3\<rparr>) entries
           \<and> (ft, order, mt) \<in> set entries"
proof -
  obtain ok w1 where c: "connect_account T (login fc) (world s) = (ok, w1)"
    by (metis surj_pair)
  obtain r2 w2 where o: "orders_get T w1 = (r2, w2)"
    by (metis surj_pair)
  obtain r3 w3 where p: "positions_get T w2 = (r3, w3)"
    by (metis surj_pair)
  have nonempty: "fetched_orders T (login fc) (world s) \<noteq> []"
    using shown by (auto simp: tagged_ticket_def)
  have "ok \<and> isl r2 = False \<and> isl r3 = False"
    using nonempty c o p by (cases ok; cases r2; cases r3) (simp_all add: fetched_orders_def)
  then obtain pending positions where r: "ok" "r2 = Inr pending" "r3 = Inr positions"
    by (cases r2; cases r3) auto
  let ?mg = "magic_number fc"
  let ?live = "track_own ?mg (track_own ?mg [] pending) positions"
  let ?s0 = "s\<lparr>world := w3\<rparr>"
  let ?entries = "orders_to_close [] ?live fc ?s0"
  have snap: "fetched_orders T (login fc) (world s) = pending @ positions"
    using c o p r by (simp add: fetched_orders_def)
  from shown obtain order where ord: "order \<in> set (pending @ positions)"
      "o_ticket order = ft" "o_magic order = ?mg"
    unfolding snap by (auto simp: tagged_ticket_def list_ex_iff)
  have "ft \<in> fst ` set ?live"
  proof (cases "order \<in> set positions")
    case True
    from track_own_has_key [OF True ord(3), of "track_own ?mg [] pending"] ord(2)
    show ?thesis by simp
  next
    case False
    with ord(1) have "order \<in> set pending" by simp
    from track_own_has_key [OF this ord(3), of "[]"] ord(2)
    have "ft \<in> fst ` set (track_own ?mg [] pending)" by simp
    then show ?thesis by (rule track_own_keeps_keys)
  qed
  then obtain order' where live: "map_of ?live ft = Some order'"
    by (metis map_of_eq_None_iff not_Some_eq)
  have "mt \<notin> set (map ticket [])" by simp
  from linked_orphan_listed [OF this _ live, of "login fc" "follower_orders ?s0"] linked
  have listed: "(ft, order', mt) \<in> set ?entries"
    by (simp add: orders_to_close_def)
  have "sync_orders_to_follower T fc [] s = cleanup_orphaned_orders T [] ?live fc ?s0"
    using c o p r by (simp add: sync_orders_to_follower_def Let_def)
  then have "sync_orders_to_follower T fc [] s
               = foldl (close_orphan T (login fc)) ?s0 ?entries"
    by (simp add: cleanup_as_loop)
  with listed show ?thesis by blast
qed

lemma empty_pass_calls:
  assumes linked: "link_of mt (login fc) (follower_orders s) = Some ft"
      and shown: "tagged_ticket (magic_number fc)
                    (fetched_orders (recording T) (login fc) (world s)) ft"
  shows "CloseCall ft \<in> set (calls (sync_orders_to_follower (recording T) fc [] s))
         \<or> CancelCall ft \<in> set (calls (sync_orders_to_follower (recording T) fc [] s))"
proof -
  from empty_pass_closing_loop [OF linked shown]
  obtain w3 entries order
    where loop: "sync_orders_to_follower (recording T) fc [] s
                   = foldl (close_orphan (recording T) (login fc)) (s\<lparr>world := w3\<rparr>) entries"
      and listed: "(ft, order, mt) \<in> set entries"
    by blast
  from closing_loop_calls [OF listed] show ?thesis
    unfolding loop .
qed

lemma empty_pass_keeps_calls:
  assumes "c \<in> set (calls s)"
  shows "c \<in> set (calls (sync_orders_to_follower (recording T) f [] s))"
proof -
  obtain ok w1 where c: "connect_account T (login f) (fst (world s)) = (ok, w1)"
    by (metis surj_pair)
  obtain r2 w2 where o: "orders_get T w1 = (r2, w2)"
    by (metis surj_pair)
  obtain r3 w3 where p: "positions_get T w2 = (r3, w3)"
    by (metis surj_pair)
  have kept: "c \<in> set (calls (s\<lparr>world := (w, snd (world s))\<rparr>))" for w
    using assms by (simp add: calls_def)
  show ?thesis
    using c o p kept
    by (cases ok; cases r2; cases r3)
       (simp_all add: sync_orders_to_follower_def cleanup_as_loop recording_connect
          recording_orders_get recording_positions_get closing_loop_keeps_calls)
qed

lemma sync_all_keeps_calls:
  assumes "c \<in> set (calls s)"
  shows "c \<in> set (calls (sync_all (recording T) fcs [] s))"
  using assms unfolding sync_all_def
  by (induction fcs arbitrary: s) (simp_all add: empty_pass_keeps_calls)

lemma empty_pass_other_links:
  assumes "login f \<noteq> lg"
  shows "link_of m lg (follower_orders (sync_orders_to_follower T f [] s))
           = link_of m lg (follower_orders s)"
proof -
  obtain ok w1 where c: "connect_account T (login f) (world s) = (ok, w1)"
    by (metis surj_pair)
  obtain r2 w2 where o: "orders_get T w1 = (r2, w2)"
    by (metis surj_pair)
  obtain r3 w3 where p: "positions_get T w2 = (r3, w3)"
    by (metis surj_pair)
  have ne: "lg \<noteq> login f" using assms by simp
  show ?thesis
    using c o p
    by (cases ok; cases r2; cases r3)
       (simp_all add: sync_orders_to_follower_def cleanup_orphaned_orders_def Let_def
          closing_loop_other_links [OF ne])
qed

lemma sync_all_other_links:
  assumes "\<forall>f \<in> set fcs. login f \<noteq> lg"
  shows "link_of m lg (follower_orders (sync_all T fcs [] s)) = link_of m lg (follower_orders s)"
  using assms unfolding sync_all_def
  by (induction fcs arbitrary: s) (simp_all add: empty_pass_other_links)

lemma sync_all_append:
  "sync_all T (xs @ ys) mos s = sync_all T ys mos (sync_all T xs mos s)"
  by (simp add: sync_all_def)

lemma sync_all_calls:
  assumes dist: "distinct (map login fcs)"
      and mem: "fc \<in> set fcs"
      and en: "is_enabled fc"
      and linked: "link_of mt (login fc) (follower_orders s) = Some ft"
      and shown: "tagged_ticket (magic_number fc)
                    (fetched_orders (recording T) (login fc)
                       (world (sync_all (recording T) (takeWhile (\<lambda>f. f \<noteq> fc) fcs) [] s))) ft"
  shows "CloseCall ft \<in> set (calls (sync_all (recording T) fcs [] s))
         \<or> CancelCall ft \<in> set (calls (sync_all (recording T) fcs [] s))"
proof -
  let ?T = "recording T"
  let ?pre = "takeWhile (\<lambda>f. f \<noteq> fc) fcs"
  let ?post = "tl (dropWhile (\<lambda>f. f \<noteq> fc) fcs)"
  have dw: "dropWhile (\<lambda>f. f \<noteq> fc) fcs = fc # ?post"
    using mem by (metis (mono_tags, lifting) dropWhile_eq_Nil_conv hd_dropWhile list.collapse)
  have split: "fcs = ?pre @ fc # ?post"
    using dw by (metis takeWhile_dropWhile_id)
  have other: "\<forall>f \<in> set ?pre. login f \<noteq> login fc"
  proof
    fix f assume f: "f \<in> set ?pre"
    then have "f \<noteq> fc" by (auto dest: set_takeWhileD)
    moreover have "f \<in> set fcs" using f by (auto dest: set_takeWhileD)
    ultimately show "login f \<noteq> login fc"
      using dist mem by (meson distinct_map inj_onD)
  qed
  let ?s1 = "sync_all ?T ?pre [] s"
  have l1: "link_of mt (login fc) (follower_orders ?s1) = Some ft"
    unfolding sync_all_other_links [OF other] by (rule linked)
  from empty_pass_calls [OF l1 shown]
  have here: "CloseCall ft \<in> set (calls (sync_orders_to_follower ?T fc [] ?s1))
              \<or> CancelCall ft \<in> set (calls (sync_orders_to_follower ?T fc [] ?s1))" .
  have "sync_all ?T fcs [] s = sync_all ?T ?post [] (sync_orders_to_follower ?T fc [] ?s1)"
  proof -
    have "sync_all ?T fcs [] s = sync_all ?T (?pre @ fc # ?post) [] s"
      using split by simp
    also have "\<dots> = sync_all ?T (fc # ?post) [] ?s1"
      by (rule sync_all_append)
    also have "\<dots> = sync_all ?T ?post [] (sync_orders_to_follower ?T fc [] ?s1)"
      using en by (simp add: sync_all_def)
    finally show ?thesis .
  qed
  with here show ?thesis
    using sync_all_keeps_calls by metis
qed

text \<open>The cycle after a failed fetch, written out: it goes on with the empty snapshot.\<close>

lemma failed_fetch_cycle:
  assumes "fst (get_master_orders T (master_account cfg) (world st)) = []"
  shows "run_copy_cycle T cfg st =
           (if last_master_state st = []
            then st\<lparr>cycle_count := cycle_count st + 1,
                    world := snd (get_master_orders T (master_account cfg) (world st)),
                    last_master_state := []\<rparr>
            else (sync_all T (follower_accounts cfg) []
                    (st\<lparr>cycle_count := cycle_count st + 1,
                        world := snd (get_master_orders T (master_account cfg) (world st))\<rparr>))
                 \<lparr>last_master_state := []\<rparr>)"
proof -
  obtain w1 where g: "get_master_orders T (master_account cfg) (world st) = ([], w1)"
    using assms by (metis fst_conv surj_pair)
  show ?thesis
    by (simp add: run_copy_cycle_def g Let_def state_of_orders_def detect_nothing_left)
qed

text \<open>
  Claim C10, as the code has it. When fetching the master snapshot fails,
  \<^verbatim>\<open>get_master_orders\<close> returns the empty list, and the cycle goes on as it does for a
  master account without orders: the state it leaves is the one written out below, which
  depends on the fetch through the empty list only. Change detection reports every ticket
  of the previous snapshot as removed, and a change exactly when there was one.

  \<^item> The previous snapshot was empty: no change is detected and the cycle makes no trade
    call at all, whatever is linked.
  \<^item> The previous snapshot was not empty: the cleanup pass of every enabled follower runs.
    For each of them (logins being distinct), the terminal receives a close or a cancel
    call for every linked follower order that it shows with the follower's magic number
    when that follower's pass starts.

  The calls are those the terminal receives (\<open>recording\<close>), not the engine's own trace.
\<close>

theorem failed_master_fetch_cleanup:
  assumes fails: "master_fetch_fails (recording T) (master_account cfg) (world st)"
  shows "fst (get_master_orders (recording T) (master_account cfg) (world st)) = []
         \<and> run_copy_cycle (recording T) cfg st =
             (if last_master_state st = []
              then st\<lparr>cycle_count := cycle_count st + 1,
                      world := snd (get_master_orders (recording T) (master_account cfg) (world st)),
                      last_master_state := []\<rparr>
              else (sync_all (recording T) (follower_accounts cfg) []
                      (st\<lparr>cycle_count := cycle_count st + 1,
                          world := snd (get_master_orders (recording T) (master_account cfg)
                                          (world st))\<rparr>))
                   \<lparr>last_master_state := []\<rparr>)
         \<and> detect_master_changes (last_master_state st) (state_of_orders []) []
             = \<lparr>has_changes = (last_master_state st \<noteq> []),
                summary = (if last_master_state st = [] then [''no changes'']
                           else [str_nat (length (last_master_state st)) @ '' removed orders''])\<rparr>
         \<and> (last_master_state st = [] \<longrightarrow>
              calls (run_copy_cycle (recording T) cfg st) = calls st)
         \<and> (last_master_state st \<noteq> [] \<and> distinct (map login (follower_accounts cfg))
              \<and> fc \<in> set (follower_accounts cfg) \<and> is_enabled fc
              \<and> link_of mt (login fc) (follower_orders st) = Some ft
              \<and> tagged_ticket (magic_number fc)
                   (fetched_orders (recording T) (login fc)
                      (world (pass_start (recording T) cfg []
                                (st\<lparr>cycle_count := cycle_count st + 1,
                                    world := snd (get_master_orders (recording T)
                                                    (master_account cfg) (world st))\<rparr>)
                                fc))) ft
              \<longrightarrow> CloseCall ft \<in> set (calls (run_copy_cycle (recording T) cfg st))
                  \<or> CancelCall ft \<in> set (calls (run_copy_cycle (recording T) cfg st)))"
proof (intro conjI impI)
  let ?T = "recording T"
  let ?st1 = "st\<lparr>cycle_count := cycle_count st + 1,
                  world := snd (get_master_orders ?T (master_account cfg) (world st))\<rparr>"
  show empty: "fst (get_master_orders ?T (master_account cfg) (world st)) = []"
    using fails by (rule failed_fetch_empty)
  show cycle: "run_copy_cycle ?T cfg st =
             (if last_master_state st = []
              then st\<lparr>cycle_count := cycle_count st + 1,
                      world := snd (get_master_orders ?T (master_account cfg) (world st)),
                      last_master_state := []\<rparr>
              else (sync_all ?T (follower_accounts cfg) [] ?st1)\<lparr>last_master_state := []\<rparr>)"
    using empty by (rule failed_fetch_cycle)
  show "detect_master_changes (last_master_state st) (state_of_orders []) []
             = \<lparr>has_changes = (last_master_state st \<noteq> []),
                summary = (if last_master_state st = [] then [''no changes'']
                           else [str_nat (length (last_master_state st)) @ '' removed orders''])\<rparr>"
    by (simp add: state_of_orders_def detect_nothing_left)
  {
    assume "last_master_state st = []"
    then show "calls (run_copy_cycle ?T cfg st) = calls st"
      by (simp add: cycle calls_def get_master_orders_calls)
  }
  assume h: "last_master_state st \<noteq> [] \<and> distinct (map login (follower_accounts cfg))
              \<and> fc \<in> set (follower_accounts cfg) \<and> is_enabled fc
              \<and> link_of mt (login fc) (follower_orders st) = Some ft
              \<and> tagged_ticket (magic_number fc)
                   (fetched_orders ?T (login fc)
                      (world (pass_start ?T cfg [] ?st1 fc))) ft"
  have linked: "link_of mt (login fc) (follower_orders ?st1) = Some ft"
    using h by simp
  have shown: "tagged_ticket (magic_number fc)
                 (fetched_orders ?T (login fc)
                    (world (sync_all ?T (takeWhile (\<lambda>f. f \<noteq> fc) (follower_accounts cfg)) []
                              ?st1))) ft"
    using h by (simp add: pass_start_def)
  have dist: "distinct (map login (follower_accounts cfg))"
    and mem: "fc \<in> set (follower_accounts cfg)" and en: "is_enabled fc"
    using h by simp_all
  from sync_all_calls [OF dist mem en linked shown]
  have "CloseCall ft \<in> set (calls (sync_all ?T (follower_accounts cfg) [] ?st1))
        \<or> CancelCall ft \<in> set (calls (sync_all ?T (follower_accounts cfg) [] ?st1))" .
  moreover have "calls (run_copy_cycle ?T cfg st)
                   = calls (sync_all ?T (follower_accounts cfg) [] ?st1)"
    using h by (simp add: cycle calls_def)
  ultimately show "CloseCall ft \<in> set (calls (run_copy_cycle ?T cfg st))
                   \<or> CancelCall ft \<in> set (calls (run_copy_cycle ?T cfg st))"
    by simp
qed

text \<open>Two runs on a terminal that cannot reach the master account while follower 2 holds
  its copy 500 of ticket 100. With ticket 100 in the previous snapshot the terminal
  receives the cancel of 500; with an empty previous snapshot it receives nothing.\<close>

theorem failed_master_fetch_cleanup_witness:
  "master_fetch_fails (recording offline_terminal) (master_account demo_config)
     (world recorded_copier)
   \<and> fst (get_master_orders (recording offline_terminal) (master_account demo_config)
            (world recorded_copier)) = []
   \<and> last_master_state recorded_copier \<noteq> []
   \<and> link_of 100 (login demo_follower) (follower_orders recorded_copier) = Some 500
   \<and> (CloseCall 500 \<in> set (calls (run_copy_cycle (recording offline_terminal) demo_config
                                     recorded_copier))
       \<or> CancelCall 500 \<in> set (calls (run_copy_cycle (recording offline_terminal) demo_config
                                        recorded_copier)))
   \<and> last_master_state (recorded_copier\<lparr>last_master_state := []\<rparr>) = []
   \<and> calls (run_copy_cycle (recording offline_terminal) demo_config
              (recorded_copier\<lparr>last_master_state := []\<rparr>)) = []"
proof -
  let ?T = "recording offline_terminal"
  let ?empty = "recorded_copier\<lparr>last_master_state := []\<rparr>"
  have fails: "master_fetch_fails ?T (master_account demo_config) (world recorded_copier)"
    by (simp add: master_fetch_fails_def demo_defs)
  have fails': "master_fetch_fails ?T (master_account demo_config) (world ?empty)"
    by (simp add: master_fetch_fails_def demo_defs)
  have tracked: "last_master_state recorded_copier \<noteq> []"
    by (simp add: demo_defs)
  have forgotten: "last_master_state ?empty = []"
    by simp
  have quiet: "calls ?empty = []"
    by (simp add: demo_defs)
  have dist: "distinct (map login (follower_accounts demo_config))"
    by (simp add: demo_defs)
  have mem: "demo_follower \<in> set (follower_accounts demo_config)"
    by (simp add: demo_config_def)
  have en: "is_enabled demo_follower"
    by (simp add: is_enabled_def demo_follower_def)
  have linked: "link_of 100 (login demo_follower) (follower_orders recorded_copier) = Some 500"
    by (simp add: link_of_def demo_defs)
  have start: "pass_start ?T demo_config []
                 (recorded_copier\<lparr>cycle_count := cycle_count recorded_copier + 1,
                    world := snd (get_master_orders ?T (master_account demo_config)
                                    (world recorded_copier))\<rparr>) demo_follower
               = recorded_copier\<lparr>cycle_count := 2, world := (1, [])\<rparr>"
    by (simp add: pass_start_def sync_all_def demo_config_def get_master_orders_def
          offline_terminal_def orphan_terminal_def fixed_terminal_def recorded_copier_def
          recording_def)
  have shown: "tagged_ticket (magic_number demo_follower)
                 (fetched_orders ?T (login demo_follower)
                    (world (pass_start ?T demo_config []
                              (recorded_copier\<lparr>cycle_count := cycle_count recorded_copier + 1,
                                 world := snd (get_master_orders ?T
                                                 (master_account demo_config)
                                                 (world recorded_copier))\<rparr>) demo_follower))) 500"
    unfolding start by (simp add: tagged_ticket_def fetched_orders_def demo_defs)
  note run = failed_master_fetch_cleanup [OF fails, of demo_follower 100 500]
  have first: "fst (get_master_orders ?T (master_account demo_config) (world recorded_copier)) = []"
    using run by blast
  have called: "CloseCall 500 \<in> set (calls (run_copy_cycle ?T demo_config recorded_copier))
                 \<or> CancelCall 500 \<in> set (calls (run_copy_cycle ?T demo_config recorded_copier))"
    using run tracked dist mem en linked shown by blast
  note run' = failed_master_fetch_cleanup [OF fails', of demo_follower 100 500]
  have "calls (run_copy_cycle ?T demo_config ?empty) = calls ?empty"
    using run' forgotten by blast
  then have silent: "calls (run_copy_cycle ?T demo_config ?empty) = []"
    using quiet by simp
  from fails first tracked linked called forgotten silent show ?thesis
    by blast
qed

text \<open>The claim fails when the previous snapshot is empty. Starting from the state above,
  on a terminal that also refuses every cancel: the first cycle finds ticket 100 removed
  and asks for the cancel of copy 500 (once for each of the two methods that list it),
  which fails, so the link stays while the stored snapshot becomes empty. In the second cycle the fetch fails again, copy 500 is still
  linked and shown by the terminal, and no close or cancel call is made.\<close>

theorem failed_fetch_after_empty_snapshot_counterexample:
  "calls (run_copy_cycle (recording stuck_terminal) demo_config recorded_copier)
     = [CancelCall 500, CancelCall 500]
   \<and> last_master_state (run_copy_cycle (recording stuck_terminal) demo_config recorded_copier) = []
   \<and> link_of 100 2 (follower_orders (run_copy_cycle (recording stuck_terminal) demo_config
                                       recorded_copier)) = Some 500
   \<and> master_fetch_fails (recording stuck_terminal) (master_account demo_config)
        (world (run_copy_cycle (recording stuck_terminal) demo_config recorded_copier))
   \<and> tagged_ticket 77
        (fetched_orders (recording stuck_terminal) 2
           (world (run_copy_cycle (recording stuck_terminal) demo_config recorded_copier))) 500
   \<and> calls (run_copy_cycle (recording stuck_terminal) demo_config
              (run_copy_cycle (recording stuck_terminal) demo_config recorded_copier))
       = [CancelCall 500, CancelCall 500]"
proof -
  have first: "run_copy_cycle (recording stuck_terminal) demo_config recorded_copier
                 = recorded_copier\<lparr>cycle_count := 2, last_master_state := [],
                      actions := [Cancel 2 500, Cancel 2 500],
                      world := (2, [CancelCall 500, CancelCall 500])\<rparr>"
    by (simp add: model_defs python_defs demo_defs)
  show ?thesis
    unfolding first
    by (simp add: model_defs python_defs demo_defs master_fetch_fails_def fetched_orders_def
          tagged_ticket_def)
qed

end
